theory Spec2Isabelle
  imports Main
begin

section \<open>Text: Unicode code points\<close>

text \<open>
  The program works on Python \<open>str\<close> values, sequences of Unicode code points. A
  character is its code point, a string a list of them. The tables below are the ones
  CPython 3.11 (Unicode 14) uses: the decimal digits \<open>\d\<close> and \<open>int()\<close> accept, the
  white space \<open>\s\<close>, \<open>str.strip\<close> and \<open>str.isspace\<close> accept, the line boundaries of
  \<open>str.splitlines\<close>, and the case folding of \<open>re.IGNORECASE\<close>.
\<close>

type_synonym uchar = nat
type_synonym ustring = "nat list"

text \<open>The code points of the digit zero of every decimal digit range (category Nd);
  each range holds the ten digits 0..9 in order.\<close>

definition decimal_zeros :: "nat list" where
  "decimal_zeros =
    [48, 1632, 1776, 1984, 2406, 2534, 2662, 2790, 2918, 3046, 3174, 3302, 3430, 3558,
     3664, 3792, 3872, 4160, 4240, 6112, 6160, 6470, 6608, 6784, 6800, 6992, 7088, 7232,
     7248, 42528, 43216, 43264, 43472, 43504, 43600, 44016, 65296, 66720, 68912, 69734,
     69872, 69942, 70096, 70384, 70736, 70864, 71248, 71360, 71472, 71904, 72016, 72784,
     73040, 73120, 92768, 92864, 93008, 120782, 120792, 120802, 120812, 120822, 123200,
     123632, 125264, 130032]"

definition is_digit :: "uchar \<Rightarrow> bool" where
  "is_digit c = list_ex (\<lambda>z. z \<le> c \<and> c < z + 10) decimal_zeros"

definition digit_value :: "uchar \<Rightarrow> nat" where
  "digit_value c =
     (case filter (\<lambda>z. z \<le> c \<and> c < z + 10) decimal_zeros of
        [] \<Rightarrow> 0
      | z # _ \<Rightarrow> c - z)"

definition white_space :: "nat list" where
  "white_space =
    [9, 10, 11, 12, 13, 28, 29, 30, 31, 32, 133, 160, 5760, 8192, 8193, 8194, 8195, 8196,
     8197, 8198, 8199, 8200, 8201, 8202, 8232, 8233, 8239, 8287, 12288]"

definition is_space :: "uchar \<Rightarrow> bool" where
  "is_space c = (c \<in> set white_space)"

text \<open>\<open>re.IGNORECASE\<close> compares characters after lower-casing them, and knows a few more
  characters as case variants of one another (here the Cyrillic letters U+1C80..U+1C86,
  variants of ve, de, o, es, te, te and the hard sign). \<open>sre_lower\<close> maps every case
  variant of a letter of this program's patterns to one representative; on the other
  code points it only has to be the identity.\<close>

definition sre_lower :: "uchar \<Rightarrow> uchar" where
  "sre_lower c =
     (if 65 \<le> c \<and> c \<le> 90 then c + 32
      else if 192 \<le> c \<and> c \<le> 222 \<and> c \<noteq> 215 then c + 32
      else if 1040 \<le> c \<and> c \<le> 1071 then c + 32
      else if 1024 \<le> c \<and> c \<le> 1039 then c + 80
      else if c = 7296 then 1074
      else if c = 7297 then 1076
      else if c = 7298 then 1086
      else if c = 7299 then 1089
      else if c = 7300 \<or> c = 7301 then 1090
      else if c = 7302 then 1098
      else c)"

text \<open>\<open>str.strip()\<close>: leading and trailing white space removed.\<close>

definition strip :: "ustring \<Rightarrow> ustring" where
  "strip s = rev (dropWhile is_space (rev (dropWhile is_space s)))"

text \<open>\<open>str.splitlines()\<close>: the text cut at every line boundary (CR LF is one boundary),
  boundaries dropped, no empty last line.\<close>

definition is_linebreak :: "uchar \<Rightarrow> bool" where
  "is_linebreak c = (c \<in> set [10, 11, 12, 13, 28, 29, 30, 133, 8232, 8233])"

fun splitlines_acc :: "ustring \<Rightarrow> ustring \<Rightarrow> ustring list" where
  "splitlines_acc cur [] = (if cur = [] then [] else [rev cur])"
| "splitlines_acc cur [c] =
     (if is_linebreak c then [rev cur] else [rev (c # cur)])"
| "splitlines_acc cur (c # d # s) =
     (if c = 13 \<and> d = 10 then rev cur # splitlines_acc [] s
      else if is_linebreak c then rev cur # splitlines_acc [] (d # s)
      else splitlines_acc (c # cur) (d # s))"

definition splitlines :: "ustring \<Rightarrow> ustring list" where
  "splitlines s = splitlines_acc [] s"

section \<open>The regular expressions of module \<open>re\<close>\<close>

text \<open>
  The fragment of Python's regular expressions the program uses: single characters,
  character sets, the classes \<open>\d\<close>, \<open>\s\<close> and \<open>.\<close>, repetition of one of these (greedy
  or lazy, with bounds), sequence, alternative, an optional group and capture groups.
\<close>

datatype atom =
    Lit uchar
  | OneOf "uchar list"
  | Digit
  | Space
  | AnyChar

datatype rx =
    Eps
  | Atom atom
  | Rep atom nat "nat option" bool
  | Seq rx rx
  | Alt rx rx
  | Opt rx
  | Group nat rx

text \<open>Whether a character of the text matches an atom; \<open>ic\<close> is the flag
  \<open>re.IGNORECASE\<close>. The dot matches everything but a newline.\<close>

fun atom_matches :: "bool \<Rightarrow> atom \<Rightarrow> uchar \<Rightarrow> bool" where
  "atom_matches ic (Lit p) c = (if ic then sre_lower c = sre_lower p else c = p)"
| "atom_matches ic (OneOf ps) c =
     (if ic then sre_lower c \<in> set (map sre_lower ps) else c \<in> set ps)"
| "atom_matches ic Digit c = is_digit c"
| "atom_matches ic Space c = is_space c"
| "atom_matches ic AnyChar c = (c \<noteq> 10)"

text \<open>The groups captured so far, the latest first.\<close>

type_synonym caps = "(nat \<times> ustring) list"

text \<open>
  The matcher is the backtracking one: \<open>rmatch ic r s g\<close> lists, in the order the engine
  tries them, every way \<open>r\<close> can match at the start of \<open>s\<close>, each as the text left over
  and the groups captured. The engine returns the first. A greedy repetition tries the
  longest run first, a lazy one the shortest.
\<close>

fun rmatch :: "bool \<Rightarrow> rx \<Rightarrow> ustring \<Rightarrow> caps \<Rightarrow> (ustring \<times> caps) list" where
  "rmatch ic Eps s g = [(s, g)]"
| "rmatch ic (Atom a) s g =
     (case s of
        [] \<Rightarrow> []
      | c # cs \<Rightarrow> if atom_matches ic a c then [(cs, g)] else [])"
| "rmatch ic (Rep a lo hi greedy) s g =
     (let k = length (takeWhile (atom_matches ic a) s);
          m = (case hi of None \<Rightarrow> k | Some h \<Rightarrow> min h k);
          ns = [lo..<Suc m]
      in map (\<lambda>n. (drop n s, g)) (if greedy then rev ns else ns))"
| "rmatch ic (Seq r1 r2) s g =
     concat (map (\<lambda>(s', g'). rmatch ic r2 s' g') (rmatch ic r1 s g))"
| "rmatch ic (Alt r1 r2) s g = rmatch ic r1 s g @ rmatch ic r2 s g"
| "rmatch ic (Opt r) s g = rmatch ic r s g @ [(s, g)]"
| "rmatch ic (Group n r) s g =
     map (\<lambda>(s', g'). (s', (n, take (length s - length s') s) # g')) (rmatch ic r s g)"

text \<open>\<open>pattern.search(s)\<close>: the first match at the leftmost position that has one;
  the result stands for the match object and holds its groups.\<close>

fun search :: "bool \<Rightarrow> rx \<Rightarrow> ustring \<Rightarrow> caps option" where
  "search ic r [] =
     (case rmatch ic r [] [] of [] \<Rightarrow> None | (_, g) # _ \<Rightarrow> Some g)"
| "search ic r (c # cs) =
     (case rmatch ic r (c # cs) [] of
        [] \<Rightarrow> search ic r cs
      | (_, g) # _ \<Rightarrow> Some g)"

text \<open>\<open>match.group(n)\<close>: \<open>None\<close> when the group took no part in the match.\<close>

definition group :: "caps \<Rightarrow> nat \<Rightarrow> ustring option" where
  "group m n = map_of m n"

text \<open>\<open>pattern.findall(s)\<close> for a pattern with two groups: the pairs of groups of the
  successive non-overlapping matches, left to right (a group that took no part gives the
  empty string). After a match the scan goes on behind it, and one character further
  when the match was empty.\<close>

function findall :: "bool \<Rightarrow> rx \<Rightarrow> ustring \<Rightarrow> (ustring \<times> ustring) list" where
  "findall ic r s =
     (case rmatch ic r s [] of
        [] \<Rightarrow> (case s of [] \<Rightarrow> [] | _ # cs \<Rightarrow> findall ic r cs)
      | (s', g) # _ \<Rightarrow>
          (case group g 1 of None \<Rightarrow> [] | Some t \<Rightarrow> t,
           case group g 2 of None \<Rightarrow> [] | Some t \<Rightarrow> t)
          # (if s = [] then []
             else findall ic r (drop (max 1 (length s - length s')) s)))"
  by pat_completeness auto
termination
  by (relation "measure (\<lambda>(ic, r, s). length s)") auto

section \<open>The patterns of the program\<close>

text \<open>A literal run of characters, and a sequence of expressions.\<close>

fun lits :: "ustring \<Rightarrow> rx" where
  "lits [] = Eps"
| "lits (c # cs) = Seq (Atom (Lit c)) (lits cs)"

fun cat :: "rx list \<Rightarrow> rx" where
  "cat [] = Eps"
| "cat (r # rs) = Seq r (cat rs)"

text \<open>\<open>\d+\<close>, \<open>\s*\<close> and \<open>\s+\<close>.\<close>

definition digits1 :: rx where
  "digits1 = Rep Digit 1 None True"

definition spaces0 :: rx where
  "spaces0 = Rep Space 0 None True"

definition spaces1 :: rx where
  "spaces1 = Rep Space 1 None True"

text \<open>The element codes: Cyrillic \<open>Km-\<close>, \<open>SZhm-\<close>, \<open>STm-\<close>, \<open>Bm-\<close>, \<open>Pm-\<close>, each followed by
  \<open>\d+\<close> (U+041A U+043C; U+0421 U+0416 U+043C; U+0421 U+0422 U+043C; U+0411 U+043C;
  U+041F U+043C; then the hyphen).\<close>

definition element_code :: rx where
  "element_code =
     Alt (Seq (lits [1050, 1084, 45]) digits1)
    (Alt (Seq (lits [1057, 1046, 1084, 45]) digits1)
    (Alt (Seq (lits [1057, 1058, 1084, 45]) digits1)
    (Alt (Seq (lits [1041, 1084, 45]) digits1)
         (Seq (lits [1055, 1084, 45]) digits1))))"

text \<open>\<open>OBJECT_RE\<close> (compiled without flags): an element code, white space, a number.\<close>

definition OBJECT_RE :: rx where
  "OBJECT_RE = cat [Group 1 element_code, spaces1, Group 2 digits1]"

text \<open>\<open>SPEC_ELEMENTS_RE\<close>: the words "Specifikaciya", "elementov" and an element code.\<close>

definition spec_words :: rx where
  "spec_words =
     cat [lits [1057, 1087, 1077, 1094, 1080, 1092, 1080, 1082, 1072, 1094, 1080, 1103],
          spaces1,
          lits [1101, 1083, 1077, 1084, 1077, 1085, 1090, 1086, 1074],
          spaces1]"

definition SPEC_ELEMENTS_RE :: rx where
  "SPEC_ELEMENTS_RE = Seq spec_words (Group 1 element_code)"

text \<open>\<open>SPEC_HEADER_RE\<close>: one of "Kolonna", "Balka", "Plita", "Steny monolitnye", "Stena",
  then an element code.\<close>

definition category_word :: rx where
  "category_word =
     Alt (lits [1050, 1086, 1083, 1086, 1085, 1085, 1072])
    (Alt (lits [1041, 1072, 1083, 1082, 1072])
    (Alt (lits [1055, 1083, 1080, 1090, 1072])
    (Alt (cat [lits [1057, 1090, 1077, 1085, 1099], spaces1,
               lits [1084, 1086, 1085, 1086, 1083, 1080, 1090, 1085, 1099, 1077]])
         (lits [1057, 1090, 1077, 1085, 1072]))))"

definition SPEC_HEADER_RE :: rx where
  "SPEC_HEADER_RE = cat [Group 1 category_word, spaces1, Group 2 element_code]"

text \<open>The words "Izdelie zakladnoe" and the code of an embedded item, \<open>ZD-\d+\<close>;
  \<open>EMBEDDED_LINE_RE\<close> asks for a number behind it, \<open>EMBEDDED_HEADER_RE\<close> does not.\<close>

definition embedded_words :: rx where
  "embedded_words =
     cat [lits [1048, 1079, 1076, 1077, 1083, 1080, 1077],
          spaces1,
          lits [1079, 1072, 1082, 1083, 1072, 1076, 1085, 1086, 1077],
          spaces1]"

definition embedded_code :: rx where
  "embedded_code = Seq (lits [1047, 1044, 45]) digits1"

definition EMBEDDED_LINE_RE :: rx where
  "EMBEDDED_LINE_RE =
     Seq embedded_words (cat [Group 1 embedded_code, spaces1, Group 2 digits1])"

definition EMBEDDED_HEADER_RE :: rx where
  "EMBEDDED_HEADER_RE = Seq embedded_words (Group 1 embedded_code)"

text \<open>The token diameter x length: an optional diameter sign (U+00D8 or U+2205), a
  number, a Latin or Cyrillic x, a number; \<open>d\<close> and \<open>l\<close> wrap the two numbers.\<close>

definition size_token :: "(rx \<Rightarrow> rx) \<Rightarrow> (rx \<Rightarrow> rx) \<Rightarrow> rx list" where
  "size_token d l =
     [Rep (OneOf [216, 8709]) 0 (Some 1) True, spaces0, d digits1, spaces0,
      Atom (OneOf [120, 1093]), spaces0, l digits1]"

text \<open>The body of the group \<open>fullname\<close> of \<open>LINE_RE\<close>: an optional standard "GOST
  number-number" (hyphen or en dash), the word "Prutok", white space, any text (as
  little as possible), the size token and an optional grade \<open>-A\d{3}\<close> with an optional
  Cyrillic Es.\<close>

definition gost_prefix :: rx where
  "gost_prefix =
     cat [lits [1043, 1054, 1057, 1058], spaces0, digits1,
          Atom (OneOf [45, 8211]), digits1, spaces0]"

definition grade_suffix :: rx where
  "grade_suffix =
     cat [Atom (Lit 45), spaces0, Atom (Lit 65), Rep Digit 3 (Some 3) True,
          Rep (Lit 1057) 0 (Some 1) True]"

definition fullname_rx :: rx where
  "fullname_rx =
     cat ([Opt gost_prefix,
           lits [1055, 1088, 1091, 1090, 1086, 1082],
           spaces1,
           Rep AnyChar 0 None False]
          @ size_token id id
          @ [Opt grade_suffix])"

text \<open>\<open>LINE_RE\<close>: group 1 is \<open>fullname\<close>, group 2 is \<open>qty\<close>.\<close>

definition LINE_RE :: rx where
  "LINE_RE = cat [Group 1 fullname_rx, spaces1, Group 2 digits1]"

text \<open>\<open>SIZE_RE\<close>: group 1 is \<open>diameter\<close>, group 2 is \<open>length\<close>.\<close>

definition SIZE_RE :: rx where
  "SIZE_RE = cat (size_token (Group 1) (Group 2))"

section \<open>Integers from text\<close>

datatype py_error = IndexError | ValueError | TypeError | AttributeError

text \<open>
  \<open>int(s)\<close> on a string: white space around the number is dropped, a sign may lead, and
  the digits (of any decimal range, single underscores between them) are read in base
  ten; anything else raises \<open>ValueError\<close>. Python's integers are unbounded. (CPython's
  configurable limit on the number of digits of such a conversion, 4300 by default
  since version 3.11, is an interpreter setting and not part of this model.)
\<close>

definition digits_value :: "ustring \<Rightarrow> nat" where
  "digits_value s = foldl (\<lambda>a c. 10 * a + digit_value c) 0 s"

fun int_body_ok :: "ustring \<Rightarrow> bool" where
  "int_body_ok [] = False"
| "int_body_ok [c] = is_digit c"
| "int_body_ok (c # d # s) =
     (is_digit c \<and> (if d = 95 then int_body_ok s else int_body_ok (d # s)))"

definition py_int :: "ustring \<Rightarrow> py_error + int" where
  "py_int s =
     (let t = strip s;
          neg = (t \<noteq> [] \<and> hd t = 45);
          b = (if t \<noteq> [] \<and> (hd t = 45 \<or> hd t = 43) then tl t else t)
      in if int_body_ok b
         then Inr ((if neg then - 1 else 1) * int (digits_value (filter (\<lambda>c. c \<noteq> 95) b)))
         else Inl ValueError)"

text \<open>\<open>int(m.group(n))\<close>: \<open>int(None)\<close> raises \<open>TypeError\<close>.\<close>

definition int_of_group :: "ustring option \<Rightarrow> py_error + int" where
  "int_of_group x = (case x of None \<Rightarrow> Inl TypeError | Some s \<Rightarrow> py_int s)"

section \<open>\<open>extract_object_counts\<close>\<close>

text \<open>
  A document is the list \<open>pdf.pages\<close>; a page is what its \<open>extract_text()\<close> returns, a
  string or \<open>None\<close>. The dictionary comprehension evaluates \<open>int(q)\<close> pair by pair, left
  to right, and a later pair with the same code replaces the earlier entry.
\<close>

type_synonym page = "ustring option"

fun build_counts :: "(ustring \<rightharpoonup> int) \<Rightarrow> (ustring \<times> ustring) list \<Rightarrow> py_error + (ustring \<rightharpoonup> int)" where
  "build_counts d [] = Inr d"
| "build_counts d ((m, q) # ps) =
     (case py_int q of
        Inl e \<Rightarrow> Inl e
      | Inr v \<Rightarrow> build_counts (d(m \<mapsto> v)) ps)"

definition extract_object_counts :: "page list \<Rightarrow> py_error + (ustring \<rightharpoonup> int)" where
  "extract_object_counts pages =
     (case pages of
        [] \<Rightarrow> Inl IndexError
      | p # _ \<Rightarrow>
          (let text = (case p of None \<Rightarrow> [] | Some t \<Rightarrow> t)
           in build_counts Map.empty (findall False OBJECT_RE text)))"

section \<open>\<open>digitize\<close>\<close>

text \<open>
  The dictionary \<open>rows\<close> keeps its keys in the order of their insertion, so it is an
  association list. A key is (element, full name, diameter, length); its entry counts
  the rods met directly, the rods met inside an embedded item, and the number of
  embedded items (the three keys of the inner dictionary).
\<close>

record counters =
  rods_direct :: int
  rods_in_zd :: int
  zd_count :: int

type_synonym key = "ustring \<times> ustring \<times> int \<times> int"
type_synonym table = "(key \<times> counters) list"

definition default_counters :: counters where
  "default_counters = \<lparr>rods_direct = 0, rods_in_zd = 0, zd_count = 0\<rparr>"

text \<open>\<open>rows[key]\<close> on the \<open>defaultdict\<close>: a missing key is inserted, last, with the
  default entry.\<close>

definition touch :: "key \<Rightarrow> table \<Rightarrow> table" where
  "touch k t = (if k \<in> fst ` set t then t else t @ [(k, default_counters)])"

text \<open>\<open>rows[key][field] = f(rows[key][field])\<close>.\<close>

definition modify :: "key \<Rightarrow> (counters \<Rightarrow> counters) \<Rightarrow> table \<Rightarrow> table" where
  "modify k f t = map (\<lambda>(k', c). if k' = k then (k', f c) else (k', c)) (touch k t)"

text \<open>The local variables of the scan.\<close>

record scan =
  current_element :: "ustring option"
  embedded_qty :: int
  in_embedded :: bool
  rows :: table

definition initial_scan :: scan where
  "initial_scan =
     \<lparr>current_element = None, embedded_qty = 0, in_embedded = False, rows = []\<rparr>"

text \<open>
  The body of the loop over the lines has two halves: the chain of tests that decides
  what a line is, which reads \<open>current_element\<close> only, and the assignments of the branch
  taken. \<open>classify\<close> is the first half, with the branch as an \<open>action\<close>; \<open>apply_action\<close>
  is the second. A \<open>continue\<close> without assignment is \<open>Skip\<close>.
\<close>

datatype action =
    Skip
  | Header "ustring option"
  | EmbeddedQty int
  | EmbeddedHeader
  | Rod key int

definition classify :: "ustring option \<Rightarrow> ustring \<Rightarrow> py_error + action" where
  "classify cur line =
     (if line = [] \<or> strip line = [] then Inr Skip
      else case search True SPEC_ELEMENTS_RE line of
        Some spec_elements \<Rightarrow> Inr (Header (group spec_elements 1))
      | None \<Rightarrow>
     (case search True SPEC_HEADER_RE line of
        Some header \<Rightarrow> Inr (Header (group header 2))
      | None \<Rightarrow>
     (case cur of
        None \<Rightarrow> Inr Skip
      | Some element \<Rightarrow>
     (if element = [] then Inr Skip
      else case search True EMBEDDED_LINE_RE line of
        Some embedded_line \<Rightarrow>
          (case int_of_group (group embedded_line 2) of
             Inl e \<Rightarrow> Inl e
           | Inr q \<Rightarrow> Inr (EmbeddedQty q))
      | None \<Rightarrow>
     (if search True EMBEDDED_HEADER_RE line \<noteq> None then Inr EmbeddedHeader
      else case search True LINE_RE line of
        None \<Rightarrow> Inr Skip
      | Some line_match \<Rightarrow>
     (case group line_match 1 of
        None \<Rightarrow> Inl AttributeError
      | Some name \<Rightarrow>
     (let fullname = strip name
      in case int_of_group (group line_match 2) of
        Inl e \<Rightarrow> Inl e
      | Inr qty \<Rightarrow>
     (case search True SIZE_RE fullname of
        None \<Rightarrow> Inr Skip
      | Some size_match \<Rightarrow>
     (case int_of_group (group size_match 1) of
        Inl e \<Rightarrow> Inl e
      | Inr diameter \<Rightarrow>
     (case int_of_group (group size_match 2) of
        Inl e \<Rightarrow> Inl e
      | Inr len \<Rightarrow> Inr (Rod (element, fullname, diameter, len) qty)))))))))))"

definition apply_action :: "scan \<Rightarrow> action \<Rightarrow> scan" where
  "apply_action st a =
     (case a of
        Skip \<Rightarrow> st
      | Header code \<Rightarrow> st\<lparr>current_element := code, in_embedded := False, embedded_qty := 0\<rparr>
      | EmbeddedQty q \<Rightarrow> st\<lparr>embedded_qty := q\<rparr>
      | EmbeddedHeader \<Rightarrow> st\<lparr>in_embedded := True\<rparr>
      | Rod k qty \<Rightarrow>
          (if in_embedded st
           then st\<lparr>rows :=
                  modify k (\<lambda>c. c\<lparr>zd_count := embedded_qty st\<rparr>)
                    (modify k (\<lambda>c. c\<lparr>rods_in_zd := rods_in_zd c + qty\<rparr>) (rows st))\<rparr>
           else st\<lparr>rows := modify k (\<lambda>c. c\<lparr>rods_direct := rods_direct c + qty\<rparr>) (rows st)\<rparr>))"

definition process_line :: "scan \<Rightarrow> ustring \<Rightarrow> py_error + scan" where
  "process_line st line =
     (case classify (current_element st) line of
        Inl e \<Rightarrow> Inl e
      | Inr a \<Rightarrow> Inr (apply_action st a))"

text \<open>The loop over the lines of a page; an exception ends it.\<close>

fun process_lines :: "scan \<Rightarrow> ustring list \<Rightarrow> py_error + scan" where
  "process_lines st [] = Inr st"
| "process_lines st (line # ls) =
     (case process_line st line of
        Inl e \<Rightarrow> Inl e
      | Inr st' \<Rightarrow> process_lines st' ls)"

text \<open>A page whose text is \<open>None\<close> or empty is passed over.\<close>

definition process_page :: "scan \<Rightarrow> page \<Rightarrow> py_error + scan" where
  "process_page st p =
     (case p of
        None \<Rightarrow> Inr st
      | Some text \<Rightarrow> if text = [] then Inr st else process_lines st (splitlines text))"

text \<open>The loop over \<open>enumerate(pdf.pages)\<close>; the page of index 0 is passed over.\<close>

fun process_pages :: "scan \<Rightarrow> (nat \<times> page) list \<Rightarrow> py_error + scan" where
  "process_pages st [] = Inr st"
| "process_pages st ((page_index, p) # ps) =
     (if page_index = 0 then process_pages st ps
      else case process_page st p of
        Inl e \<Rightarrow> Inl e
      | Inr st' \<Rightarrow> process_pages st' ps)"

text \<open>A row of the result, one field for each of its nine columns.\<close>

record out_row =
  r_element :: ustring
  r_name :: ustring
  r_diameter :: int
  r_length :: int
  r_rods_direct :: int
  r_rods_in_zd :: int
  r_objects :: int
  r_zd_count :: int
  r_total :: int

definition project :: "(ustring \<rightharpoonup> int) \<Rightarrow> key \<times> counters \<Rightarrow> out_row" where
  "project object_counts kc =
     (case kc of ((element, fullname, d, l), c) \<Rightarrow>
        (let obj_qty = (case object_counts element of None \<Rightarrow> 1 | Some v \<Rightarrow> v);
             total = rods_direct c * obj_qty + rods_in_zd c * zd_count c * obj_qty
         in \<lparr>r_element = element, r_name = fullname, r_diameter = d, r_length = l,
             r_rods_direct = rods_direct c, r_rods_in_zd = rods_in_zd c,
             r_objects = obj_qty, r_zd_count = zd_count c, r_total = total\<rparr>))"

definition digitize :: "page list \<Rightarrow> (ustring \<rightharpoonup> int) \<Rightarrow> py_error + out_row list" where
  "digitize pages object_counts =
     (case process_pages initial_scan (enumerate 0 pages) of
        Inl e \<Rightarrow> Inl e
      | Inr st \<Rightarrow> Inr (map (project object_counts) (rows st)))"

section \<open>Notions used to state the properties\<close>

text \<open>The words an expression matches, whatever the order in which the engine finds
  them; a capture group matches what its body matches.\<close>

fun lang :: "bool \<Rightarrow> rx \<Rightarrow> ustring \<Rightarrow> bool" where
  "lang ic Eps w = (w = [])"
| "lang ic (Atom a) w = (\<exists>c. w = [c] \<and> atom_matches ic a c)"
| "lang ic (Rep a lo hi greedy) w =
     (lo \<le> length w \<and> (case hi of None \<Rightarrow> True | Some h \<Rightarrow> length w \<le> h)
      \<and> list_all (atom_matches ic a) w)"
| "lang ic (Seq r1 r2) w = (\<exists>u v. w = u @ v \<and> lang ic r1 u \<and> lang ic r2 v)"
| "lang ic (Alt r1 r2) w = (lang ic r1 w \<or> lang ic r2 w)"
| "lang ic (Opt r) w = (w = [] \<or> lang ic r w)"
| "lang ic (Group n r) w = lang ic r w"

text \<open>The words an expression matches together with the groups it captures on them:
  \<open>captures ic r w g g'\<close> when \<open>r\<close> matches \<open>w\<close> and turns the groups \<open>g\<close> into \<open>g'\<close>.\<close>

fun captures :: "bool \<Rightarrow> rx \<Rightarrow> ustring \<Rightarrow> caps \<Rightarrow> caps \<Rightarrow> bool" where
  "captures ic Eps w g g' = (w = [] \<and> g' = g)"
| "captures ic (Atom a) w g g' = ((\<exists>c. w = [c] \<and> atom_matches ic a c) \<and> g' = g)"
| "captures ic (Rep a lo hi greedy) w g g' = (lang ic (Rep a lo hi greedy) w \<and> g' = g)"
| "captures ic (Seq r1 r2) w g g' =
     (\<exists>u v g1. w = u @ v \<and> captures ic r1 u g g1 \<and> captures ic r2 v g1 g')"
| "captures ic (Alt r1 r2) w g g' = (captures ic r1 w g g' \<or> captures ic r2 w g g')"
| "captures ic (Opt r) w g g' = ((w = [] \<and> g' = g) \<or> captures ic r w g g')"
| "captures ic (Group n r) w g g' = (\<exists>g1. captures ic r w g g1 \<and> g' = (n, w) # g1)"

text \<open>An expression without capture groups.\<close>

fun nogroup :: "rx \<Rightarrow> bool" where
  "nogroup (Seq r1 r2) = (nogroup r1 \<and> nogroup r2)"
| "nogroup (Alt r1 r2) = (nogroup r1 \<and> nogroup r2)"
| "nogroup (Opt r) = nogroup r"
| "nogroup (Group n r) = False"
| "nogroup r = True"

text \<open>A number as the patterns capture it: one or more decimal digits.\<close>

definition is_number :: "ustring \<Rightarrow> bool" where
  "is_number w = (w \<noteq> [] \<and> list_all is_digit w)"

text \<open>The lines the scan of a document meets, in order: those of every page but the
  first that has text.\<close>

definition page_lines :: "page \<Rightarrow> ustring list" where
  "page_lines p = (case p of None \<Rightarrow> [] | Some text \<Rightarrow> splitlines text)"

definition doc_lines :: "page list \<Rightarrow> ustring list" where
  "doc_lines pages = concat (map page_lines (tl pages))"

text \<open>The actions of the successive lines, from a given current element; a line that
  raises ends the sequence.\<close>

fun actions :: "ustring option \<Rightarrow> ustring list \<Rightarrow> action list" where
  "actions cur [] = []"
| "actions cur (line # ls) =
     (case classify cur line of
        Inl e \<Rightarrow> []
      | Inr a \<Rightarrow> a # actions (case a of Header code \<Rightarrow> code | _ \<Rightarrow> cur) ls)"

text \<open>The keys of the rod events among them.\<close>

fun rod_keys :: "action list \<Rightarrow> key list" where
  "rod_keys [] = []"
| "rod_keys (Rod k qty # as) = k # rod_keys as"
| "rod_keys (_ # as) = rod_keys as"

text \<open>A list without the repetitions of its elements: each one stays where it first
  occurs.\<close>

definition first_occurrences :: "'a list \<Rightarrow> 'a list" where
  "first_occurrences xs = rev (remdups (rev xs))"

text \<open>The entry of a key in the table as \<open>rows[key]\<close> reads it: the default entry when
  the key is not there.\<close>

definition entry :: "table \<Rightarrow> key \<Rightarrow> counters" where
  "entry t k = (case map_of t k of None \<Rightarrow> default_counters | Some c \<Rightarrow> c)"

definition row_key :: "out_row \<Rightarrow> key" where
  "row_key r = (r_element r, r_name r, r_diameter r, r_length r)"

section \<open>Example texts\<close>

text \<open>Element codes "Km-1" and "Bm-2"; the lines "Kolonna Km-1", "Balka Bm-2",
  "Izdelie zakladnoe ZD-1", the same with the quantities 4 and 7, the rod lines
  "Prutok 12x500 5" and "Prutok (empty set sign)10x300 2", and a line "abc"; a summary
  page "Km-1 3 / Bm-2 7 Km-1 5".\<close>

definition km1 :: ustring where
  "km1 = [1050, 1084, 45, 49]"

definition bm2 :: ustring where
  "bm2 = [1041, 1084, 45, 50]"

definition line_kolonna_km1 :: ustring where
  "line_kolonna_km1 = [1050, 1086, 1083, 1086, 1085, 1085, 1072, 32, 1050, 1084, 45, 49]"

definition line_balka_bm2 :: ustring where
  "line_balka_bm2 = [1041, 1072, 1083, 1082, 1072, 32, 1041, 1084, 45, 50]"

definition line_zd :: ustring where
  "line_zd =
     [1048, 1079, 1076, 1077, 1083, 1080, 1077, 32, 1079, 1072, 1082, 1083, 1072, 1076,
      1085, 1086, 1077, 32, 1047, 1044, 45, 49]"

definition line_zd_4 :: ustring where
  "line_zd_4 = line_zd @ [32, 52]"

definition line_zd_7 :: ustring where
  "line_zd_7 = line_zd @ [32, 55]"

definition name_12x500 :: ustring where
  "name_12x500 = [1055, 1088, 1091, 1090, 1086, 1082, 32, 49, 50, 120, 53, 48, 48]"

definition line_rod_12x500_5 :: ustring where
  "line_rod_12x500_5 = name_12x500 @ [32, 53]"

definition name_10x300 :: ustring where
  "name_10x300 = [1055, 1088, 1091, 1090, 1086, 1082, 32, 8709, 49, 48, 120, 51, 48, 48]"

definition line_rod_10x300_2 :: ustring where
  "line_rod_10x300_2 = name_10x300 @ [32, 50]"

definition line_abc :: ustring where
  "line_abc = [97, 98, 99]"

definition summary_page :: ustring where
  "summary_page =
     [1050, 1084, 45, 49, 32, 51, 10, 1041, 1084, 45, 50, 32, 55, 32, 1050, 1084, 45, 49,
      32, 53]"

text \<open>Lines joined by newlines into the text of a page.\<close>

fun join_lines :: "ustring list \<Rightarrow> ustring" where
  "join_lines [] = []"
| "join_lines [l] = l"
| "join_lines (l # ls) = l @ [10] @ join_lines ls"

text \<open>A document: the summary page, a page without text, a page for the column Km-1
  with a direct rod and a rod inside an embedded item present 4 times, and a page that
  goes on with Km-1 and then describes the beam Bm-2.\<close>

definition example_pages :: "page list" where
  "example_pages =
     [Some summary_page,
      None,
      Some (join_lines [line_kolonna_km1, line_rod_12x500_5, line_zd, line_zd_4,
                        line_rod_10x300_2]),
      Some (join_lines [line_rod_10x300_2, line_balka_bm2, line_rod_10x300_2,
                        line_rod_12x500_5])]"

text \<open>A state in the middle of a scan: inside the column Km-1, inside an embedded item
  present 4 times, nothing recorded yet.\<close>

definition embedded_scan :: scan where
  "embedded_scan =
     \<lparr>current_element = Some km1, embedded_qty = 4, in_embedded = True, rows = []\<rparr>"

section \<open>Properties of the matcher\<close>

lemma take_takeWhile_all:
  "n \<le> length (takeWhile P s) \<Longrightarrow> list_all P (take n s) \<and> length (take n s) = n"
proof (induction s arbitrary: n)
  case Nil then show ?case by simp
next
  case (Cons c s)
  then show ?case by (cases n) (auto split: if_splits)
qed

lemma length_takeWhile_append:
  "list_all P w \<Longrightarrow> length w \<le> length (takeWhile P (w @ s))"
  by (induction w) auto

lemma rmatch_Seq_iff:
  "(s', g') \<in> set (rmatch ic (Seq r1 r2) s g) \<longleftrightarrow>
   (\<exists>s1 g1. (s1, g1) \<in> set (rmatch ic r1 s g) \<and> (s', g') \<in> set (rmatch ic r2 s1 g1))"
  by auto

lemma rmatch_Rep_iff:
  "(s', g') \<in> set (rmatch ic (Rep a lo hi gr) s g) \<longleftrightarrow>
   (g' = g \<and> (\<exists>n. lo \<le> n \<and> n \<le> length (takeWhile (atom_matches ic a) s)
       \<and> (case hi of None \<Rightarrow> True | Some h \<Rightarrow> n \<le> h) \<and> s' = drop n s))"
proof -
  define k where "k = length (takeWhile (atom_matches ic a) s)"
  define m where "m = (case hi of None \<Rightarrow> k | Some h \<Rightarrow> min h k)"
  have "set (rmatch ic (Rep a lo hi gr) s g) = (\<lambda>n. (drop n s, g)) ` set [lo..<Suc m]"
    unfolding k_def m_def by (cases gr) (simp_all add: Let_def del: upt_Suc)
  moreover have "set [lo..<Suc m] = {lo..m}"
    by auto
  moreover have "\<And>n. n \<le> m \<longleftrightarrow> n \<le> k \<and> (case hi of None \<Rightarrow> True | Some h \<Rightarrow> n \<le> h)"
    by (auto simp: m_def split: option.splits)
  ultimately show ?thesis unfolding k_def by auto
qed

lemma rmatch_captures:
  "(s', g') \<in> set (rmatch ic r s g) \<Longrightarrow> \<exists>w. s = w @ s' \<and> captures ic r w g g'"
proof (induction r arbitrary: s g s' g')
  case Eps then show ?case by simp
next
  case (Atom a) then show ?case by (auto split: list.splits if_splits)
next
  case (Rep a lo hi gr)
  then obtain n where n: "lo \<le> n" "n \<le> length (takeWhile (atom_matches ic a) s)"
    "case hi of None \<Rightarrow> True | Some h \<Rightarrow> n \<le> h" "s' = drop n s" and g: "g' = g"
    unfolding rmatch_Rep_iff by blast
  have "list_all (atom_matches ic a) (take n s) \<and> length (take n s) = n"
    using n(2) by (rule take_takeWhile_all)
  with n g have "s = take n s @ s' \<and> captures ic (Rep a lo hi gr) (take n s) g g'"
    by (auto split: option.splits)
  then show ?case by blast
next
  case (Seq r1 r2)
  then obtain s1 g1 where a: "(s1, g1) \<in> set (rmatch ic r1 s g)"
    and b: "(s', g') \<in> set (rmatch ic r2 s1 g1)"
    unfolding rmatch_Seq_iff by blast
  from Seq.IH(1)[OF a] obtain u where u: "s = u @ s1" "captures ic r1 u g g1" by blast
  from Seq.IH(2)[OF b] obtain v where v: "s1 = v @ s'" "captures ic r2 v g1 g'" by blast
  from u v have "s = (u @ v) @ s' \<and> captures ic (Seq r1 r2) (u @ v) g g'" by auto
  then show ?case by blast
next
  case (Alt r1 r2) then show ?case by auto blast+
next
  case (Opt r) then show ?case by auto blast
next
  case (Group n r)
  from Group.prems obtain g1 where m: "(s', g1) \<in> set (rmatch ic r s g)"
    and g': "g' = (n, take (length s - length s') s) # g1" by auto
  from Group.IH[OF m] obtain w where w: "s = w @ s'" "captures ic r w g g1" by blast
  with g' have "s = w @ s' \<and> captures ic (Group n r) w g g'" by auto
  then show ?case by blast
qed

lemma captures_lang: "captures ic r w g g' \<Longrightarrow> lang ic r w"
  by (induction r arbitrary: w g g') (auto, blast+)

lemma rmatch_complete:
  "lang ic r w \<Longrightarrow> \<exists>g'. (s', g') \<in> set (rmatch ic r (w @ s') g)"
proof (induction r arbitrary: w s' g)
  case Eps then show ?case by simp
next
  case (Atom a) then show ?case by auto
next
  case (Rep a lo hi gr)
  then have "length w \<le> length (takeWhile (atom_matches ic a) (w @ s'))"
    by (simp add: length_takeWhile_append)
  with Rep show ?case unfolding rmatch_Rep_iff
    by (auto split: option.splits intro!: exI[of _ "length w"])
next
  case (Seq r1 r2)
  then obtain u v where w: "w = u @ v" and u: "lang ic r1 u" and v: "lang ic r2 v" by auto
  from Seq.IH(1)[OF u, of "v @ s'" g] obtain g1 where
    a: "(v @ s', g1) \<in> set (rmatch ic r1 (u @ v @ s') g)" by blast
  from Seq.IH(2)[OF v, of s' g1] obtain g2 where
    b: "(s', g2) \<in> set (rmatch ic r2 (v @ s') g1)" by blast
  from a b w show ?case unfolding rmatch_Seq_iff by auto
next
  case (Alt r1 r2) then show ?case by auto blast+
next
  case (Opt r)
  show ?case
  proof (cases "w = []")
    case True then show ?thesis by auto
  next
    case False
    with Opt.prems have "lang ic r w" by simp
    from Opt.IH[OF this, of s' g] show ?thesis by auto
  qed
next
  case (Group n r)
  from Group.prems have "lang ic r w" by simp
  from Group.IH[OF this, of s' g] obtain g1 where "(s', g1) \<in> set (rmatch ic r (w @ s') g)" by blast
  then show ?case by (force)
qed

lemma search_None_iff:
  "search ic r s = None \<longleftrightarrow> (\<forall>i \<le> length s. rmatch ic r (drop i s) [] = [])"
proof (induction s)
  case Nil then show ?case by (auto split: list.splits)
next
  case (Cons c s)
  have "(\<forall>i \<le> Suc (length s). rmatch ic r (drop i (c # s)) [] = []) \<longleftrightarrow>
        (rmatch ic r (c # s) [] = [] \<and> (\<forall>i \<le> length s. rmatch ic r (drop i s) [] = []))"
    (is "?L \<longleftrightarrow> ?R")
  proof
    assume L: ?L
    have "rmatch ic r (drop 0 (c # s)) [] = []" using L by blast
    moreover have "\<forall>i \<le> length s. rmatch ic r (drop i s) [] = []"
    proof (intro allI impI)
      fix i assume "i \<le> length s"
      then have "rmatch ic r (drop (Suc i) (c # s)) [] = []" using L by blast
      then show "rmatch ic r (drop i s) [] = []" by simp
    qed
    ultimately show ?R by simp
  next
    assume R: ?R
    show ?L
    proof (intro allI impI)
      fix i assume "i \<le> Suc (length s)"
      then show "rmatch ic r (drop i (c # s)) [] = []" using R by (cases i) auto
    qed
  qed
  with Cons show ?case by (auto split: list.splits)
qed

lemma search_Some_match:
  "search ic r s = Some g \<Longrightarrow> \<exists>i s'. i \<le> length s \<and> (s', g) \<in> set (rmatch ic r (drop i s) [])"
proof (induction s)
  case Nil then show ?case by (auto split: list.splits)
next
  case (Cons c s)
  show ?case
  proof (cases "rmatch ic r (c # s) []")
    case Nil
    with Cons.prems have "search ic r s = Some g" by simp
    from Cons.IH[OF this] obtain i s' where "i \<le> length s" "(s', g) \<in> set (rmatch ic r (drop i s) [])" by blast
    then have "Suc i \<le> length (c # s) \<and> (s', g) \<in> set (rmatch ic r (drop (Suc i) (c # s)) [])" by simp
    then show ?thesis by blast
  next
    case (Cons p ps)
    with Cons.prems have "(fst p, g) \<in> set (rmatch ic r (drop 0 (c # s)) [])"
      by (cases p) auto
    then show ?thesis by blast
  qed
qed

lemma search_Some_captures:
  assumes "search ic r s = Some m"
  shows "\<exists>u w v. s = u @ w @ v \<and> captures ic r w [] m"
proof -
  from search_Some_match[OF assms] obtain i s' where
    "(s', m) \<in> set (rmatch ic r (drop i s) [])" by blast
  from rmatch_captures[OF this] obtain w where "drop i s = w @ s'" "captures ic r w [] m" by blast
  moreover have "s = take i s @ drop i s" by simp
  ultimately have "s = take i s @ w @ s' \<and> captures ic r w [] m" by simp
  then show ?thesis by blast
qed

lemma search_complete:
  assumes "lang ic r w"
  shows "search ic r (u @ w @ v) \<noteq> None"
proof
  assume "search ic r (u @ w @ v) = None"
  then have "\<forall>i \<le> length (u @ w @ v). rmatch ic r (drop i (u @ w @ v)) [] = []"
    unfolding search_None_iff .
  then have "rmatch ic r (drop (length u) (u @ w @ v)) [] = []"
    by (rule allE[of _ "length u"]) simp
  then have "rmatch ic r (w @ v) [] = []" by simp
  with rmatch_complete[OF assms, of v "[]"] show False by simp
qed

subsection \<open>Characters\<close>

lemma white_space_not_digit: "list_all (\<lambda>c. \<not> is_digit c) white_space"
  by (simp add: white_space_def is_digit_def decimal_zeros_def)

lemma space_not_digit: "is_space c \<Longrightarrow> \<not> is_digit c"
  using white_space_not_digit by (simp add: is_space_def list_all_iff)

lemma digit_not_space: "is_digit c \<Longrightarrow> \<not> is_space c"
  using space_not_digit by blast

lemma digit_not_sign: "is_digit c \<Longrightarrow> c \<noteq> 45 \<and> c \<noteq> 43 \<and> c \<noteq> 95"
proof -
  have "\<not> is_digit 45" "\<not> is_digit 43" "\<not> is_digit 95"
    by (simp_all add: is_digit_def decimal_zeros_def)
  then show "is_digit c \<Longrightarrow> c \<noteq> 45 \<and> c \<noteq> 43 \<and> c \<noteq> 95" by blast
qed

lemma white_space_lower: "list_all (\<lambda>c. sre_lower c = c) white_space"
  by (simp add: white_space_def sre_lower_def)

lemma space_lower: "is_space c \<Longrightarrow> sre_lower c = c"
  using white_space_lower by (simp add: is_space_def list_all_iff)

subsection \<open>strip\<close>

lemma dropWhile_id: "s \<noteq> [] \<Longrightarrow> \<not> P (hd s) \<Longrightarrow> dropWhile P s = s"
  by (cases s) auto

lemma strip_id:
  assumes "s \<noteq> []" "\<not> is_space (hd s)" "\<not> is_space (last s)"
  shows "strip s = s"
proof -
  have "dropWhile is_space s = s" using assms by (simp add: dropWhile_id)
  moreover have "dropWhile is_space (rev s) = rev s"
    using assms by (simp add: dropWhile_id hd_rev)
  ultimately show ?thesis by (simp add: strip_def)
qed

lemma strip_Nil_iff: "strip s = [] \<longleftrightarrow> list_all is_space s"
proof -
  have "strip s = [] \<longleftrightarrow> list_all is_space (dropWhile is_space s)"
    by (simp add: strip_def dropWhile_eq_Nil_conv list_all_iff)
  also have "\<dots> \<longleftrightarrow> dropWhile is_space s = []"
  proof
    assume a: "list_all is_space (dropWhile is_space s)"
    show "dropWhile is_space s = []"
    proof (rule ccontr)
      assume "dropWhile is_space s \<noteq> []"
      then have "\<not> is_space (hd (dropWhile is_space s))" by (rule hd_dropWhile)
      moreover from \<open>dropWhile is_space s \<noteq> []\<close> a have "is_space (hd (dropWhile is_space s))"
        by (cases "dropWhile is_space s") auto
      ultimately show False by simp
    qed
  next
    assume e: "dropWhile is_space s = []"
    show "list_all is_space (dropWhile is_space s)" unfolding e by simp
  qed
  also have "\<dots> \<longleftrightarrow> list_all is_space s"
    by (simp add: dropWhile_eq_Nil_conv list_all_iff)
  finally show ?thesis .
qed

subsection \<open>int()\<close>

lemma int_body_ok_digits: "s \<noteq> [] \<Longrightarrow> list_all is_digit s \<Longrightarrow> int_body_ok s"
  by (induction s rule: int_body_ok.induct) (auto dest: digit_not_sign)

lemma filter_digits: "list_all is_digit s \<Longrightarrow> filter (\<lambda>c. c \<noteq> 95) s = s"
  by (induction s) (auto dest: digit_not_sign)

lemma py_int_number:
  assumes "is_number w"
  shows "py_int w = Inr (int (digits_value w))"
proof -
  from assms have ne: "w \<noteq> []" and dig: "list_all is_digit w"
    by (simp_all add: is_number_def)
  from ne dig have h: "is_digit (hd w)" by (cases w) auto
  from ne dig have l: "is_digit (last w)" by (simp add: list_all_iff)
  have s: "strip w = w" using ne h l by (intro strip_id) (auto dest: digit_not_space)
  from h have "hd w \<noteq> 45" "hd w \<noteq> 43" by (auto dest: digit_not_sign)
  with s ne dig show ?thesis
    by (simp add: py_int_def Let_def int_body_ok_digits filter_digits)
qed

lemma int_of_group_number: "is_number w \<Longrightarrow> int_of_group (Some w) = Inr (int (digits_value w))"
  by (simp add: int_of_group_def py_int_number)

subsection \<open>Patterns\<close>

lemma captures_nogroup: "nogroup r \<Longrightarrow> captures ic r w g g' \<longleftrightarrow> lang ic r w \<and> g' = g"
  by (induction r arbitrary: w g g') auto

lemma nogroup_lits [simp]: "nogroup (lits p)"
  by (induction p) auto

lemma lang_digits1 [simp]: "lang ic digits1 w = is_number w"
  by (cases w) (auto simp: digits1_def is_number_def list_all_iff)

lemma nogroup_basic [simp]: "nogroup digits1" "nogroup spaces0" "nogroup spaces1"
  by (simp_all add: digits1_def spaces0_def spaces1_def)

lemma nogroup_element_code [simp]: "nogroup element_code"
  by (simp add: element_code_def)

lemma nogroup_fullname_rx [simp]: "nogroup fullname_rx"
  by (simp add: fullname_rx_def size_token_def gost_prefix_def grade_suffix_def)

lemma number_not_blank: "is_number q \<Longrightarrow> \<not> list_all is_space (a @ q @ b)"
  by (cases q) (auto simp: is_number_def dest: digit_not_space)

lemma lang_element_code: "lang ic element_code w \<Longrightarrow> \<exists>a q. w = a @ q \<and> is_number q"
  by (auto simp: element_code_def)

lemma number_has_digit: "is_number q \<Longrightarrow> list_ex is_digit q"
  by (cases q) (auto simp: is_number_def)

lemma has_digit_not_blank: "list_ex is_digit w \<Longrightarrow> \<not> list_all is_space (u @ w @ v)"
  by (auto simp: list_ex_iff list_all_iff dest: digit_not_space)

lemma element_code_has_digit: "lang ic element_code w \<Longrightarrow> list_ex is_digit w"
  by (auto simp: element_code_def dest: number_has_digit)

lemma element_code_not_Nil: "lang ic element_code w \<Longrightarrow> w \<noteq> []"
  using element_code_has_digit by fastforce

lemma nogroup_words [simp]:
  "nogroup spec_words" "nogroup category_word" "nogroup embedded_words" "nogroup embedded_code"
  by (simp_all add: spec_words_def category_word_def embedded_words_def embedded_code_def)

lemma captures_two_groups:
  assumes "captures ic (cat [Group 1 A, B, Group 2 C]) w g m"
    and "nogroup A" "nogroup B" "nogroup C"
  shows "\<exists>a b c. w = a @ b @ c \<and> lang ic A a \<and> lang ic B b \<and> lang ic C c
           \<and> m = [(2, c), (1, a)] @ g"
  using assms by (auto simp: captures_nogroup)

lemma captures_prefix:
  assumes "captures ic (Seq P r) w g m" and "nogroup P"
  shows "\<exists>u v. w = u @ v \<and> lang ic P u \<and> captures ic r v g m"
  using assms by (auto simp: captures_nogroup)

lemma captures_one_group:
  assumes "captures ic (Group n A) w g m" and "nogroup A"
  shows "lang ic A w \<and> m = (n, w) # g"
  using assms by (auto simp: captures_nogroup)


lemma SPEC_ELEMENTS_RE_match:
  assumes "search True SPEC_ELEMENTS_RE line = Some m"
  shows "(\<exists>code. group m 1 = Some code \<and> lang True element_code code) \<and> \<not> list_all is_space line"
proof -
  from search_Some_captures[OF assms] obtain u w v where
    l: "line = u @ w @ v" and c: "captures True SPEC_ELEMENTS_RE w [] m" by blast
  from captures_prefix[OF c[unfolded SPEC_ELEMENTS_RE_def] nogroup_words(1)] obtain a code where
    w: "w = a @ code" and g: "captures True (Group 1 element_code) code [] m" by blast
  from captures_one_group[OF g nogroup_element_code]
  have code: "lang True element_code code" and m: "m = [(1, code)]" by simp_all
  from code have "list_ex is_digit w" using element_code_has_digit w by auto
  with l have "\<not> list_all is_space line" using has_digit_not_blank by blast
  with code m show ?thesis by (simp add: group_def)
qed

lemma SPEC_HEADER_RE_match:
  assumes "search True SPEC_HEADER_RE line = Some m"
  shows "(\<exists>code. group m 2 = Some code \<and> lang True element_code code) \<and> \<not> list_all is_space line"
proof -
  from search_Some_captures[OF assms] obtain u w v where
    l: "line = u @ w @ v" and c: "captures True SPEC_HEADER_RE w [] m" by blast
  from captures_two_groups[OF c[unfolded SPEC_HEADER_RE_def] nogroup_words(2)
      nogroup_basic(3) nogroup_element_code]
  obtain a b code where w: "w = a @ b @ code" and code: "lang True element_code code"
    and m: "m = [(2, code), (1, a)] @ []"
    by blast
  from code have "list_ex is_digit w" using element_code_has_digit w by auto
  with l have "\<not> list_all is_space line" using has_digit_not_blank by blast
  with code m show ?thesis by (simp add: group_def)
qed

lemma EMBEDDED_LINE_RE_match:
  assumes "search True EMBEDDED_LINE_RE line = Some m"
  shows "(\<exists>q. group m 2 = Some q \<and> is_number q) \<and> \<not> list_all is_space line
         \<and> search True EMBEDDED_HEADER_RE line \<noteq> None"
proof -
  from search_Some_captures[OF assms] obtain u w v where
    l: "line = u @ w @ v" and c: "captures True EMBEDDED_LINE_RE w [] m" by blast
  from captures_prefix[OF c[unfolded EMBEDDED_LINE_RE_def] nogroup_words(3)] obtain p r where
    w: "w = p @ r" and p: "lang True embedded_words p"
    and r: "captures True (cat [Group 1 embedded_code, spaces1, Group 2 digits1]) r [] m" by blast
  from captures_two_groups[OF r nogroup_words(4) nogroup_basic(3) nogroup_basic(1)]
  obtain a b q where r': "r = a @ b @ q"
    and a: "lang True embedded_code a" and q': "lang True digits1 q"
    and m: "m = [(2, q), (1, a)] @ []" by blast
  from q' have q: "is_number q" by simp
  from q have "list_ex is_digit w" using number_has_digit w r' by auto
  with l have nb: "\<not> list_all is_space line" using has_digit_not_blank by blast
  from p a have "lang True EMBEDDED_HEADER_RE (p @ a)"
    unfolding EMBEDDED_HEADER_RE_def lang.simps by blast
  from search_complete[OF this, of u "b @ q @ v"] l w r'
  have "search True EMBEDDED_HEADER_RE line \<noteq> None" by simp
  with nb q m show ?thesis by (simp add: group_def)
qed

lemma LINE_RE_match:
  assumes "search True LINE_RE line = Some m"
  shows "(\<exists>name q. group m 1 = Some name \<and> lang True fullname_rx name
            \<and> group m 2 = Some q \<and> is_number q) \<and> \<not> list_all is_space line"
proof -
  from search_Some_captures[OF assms] obtain u w v where
    l: "line = u @ w @ v" and c: "captures True LINE_RE w [] m" by blast
  from captures_two_groups[OF c[unfolded LINE_RE_def] nogroup_fullname_rx
      nogroup_basic(3) nogroup_basic(1)]
  obtain a b q where w: "w = a @ b @ q" and a: "lang True fullname_rx a"
    and q': "lang True digits1 q" and m: "m = [(2, q), (1, a)] @ []"
    by blast
  from q' have q: "is_number q" by simp
  from q have "list_ex is_digit w" using number_has_digit w by auto
  with l have "\<not> list_all is_space line" using has_digit_not_blank by blast
  with a q m show ?thesis by (simp add: group_def)
qed

lemma SIZE_RE_match:
  assumes "search True SIZE_RE s = Some m"
  shows "\<exists>d l. group m 1 = Some d \<and> is_number d \<and> group m 2 = Some l \<and> is_number l"
proof -
  from search_Some_captures[OF assms] obtain u w v where
    c: "captures True SIZE_RE w [] m" by blast
  then show ?thesis
    by (auto simp: SIZE_RE_def size_token_def spaces0_def group_def digits1_def is_number_def list_all_iff)
qed

lemma lang_cat_append:
  "lang ic (cat (xs @ ys)) w \<longleftrightarrow> (\<exists>u v. w = u @ v \<and> lang ic (cat xs) u \<and> lang ic (cat ys) v)"
proof (induction xs arbitrary: w)
  case Nil then show ?case by simp
next
  case (Cons r xs)
  show ?case
  proof
    assume "lang ic (cat ((r # xs) @ ys)) w"
    then obtain a b where w: "w = a @ b" and a: "lang ic r a" and b: "lang ic (cat (xs @ ys)) b"
      by auto
    from b Cons.IH obtain u v where "b = u @ v" "lang ic (cat xs) u" "lang ic (cat ys) v" by blast
    with w a have "w = (a @ u) @ v \<and> lang ic (cat (r # xs)) (a @ u) \<and> lang ic (cat ys) v" by auto
    then show "\<exists>u v. w = u @ v \<and> lang ic (cat (r # xs)) u \<and> lang ic (cat ys) v" by blast
  next
    assume "\<exists>u v. w = u @ v \<and> lang ic (cat (r # xs)) u \<and> lang ic (cat ys) v"
    then obtain u v where w: "w = u @ v" and u: "lang ic (cat (r # xs)) u" and v: "lang ic (cat ys) v"
      by blast
    from u obtain a b where ab: "u = a @ b" "lang ic r a" "lang ic (cat xs) b" by auto
    with v Cons.IH have "lang ic (cat (xs @ ys)) (b @ v)" by blast
    with ab w show "lang ic (cat ((r # xs) @ ys)) w" by auto
  qed
qed

lemma lower_not_space: "sre_lower c = k \<Longrightarrow> \<not> is_space k \<Longrightarrow> \<not> is_space c"
  using space_lower by fastforce

lemma not_space_consts:
  "\<not> is_space 1075" "\<not> is_space 1087" "\<not> is_space 1089" 
  by (simp_all add: is_space_def white_space_def)

lemma size_token_SIZE_RE: "lang ic (cat (size_token id id)) t = lang ic SIZE_RE t"
  by (simp add: size_token_def SIZE_RE_def)

lemma SIZE_RE_last: "lang ic SIZE_RE t \<Longrightarrow> t \<noteq> [] \<and> is_digit (last t)"
  by (auto simp: SIZE_RE_def size_token_def is_number_def list_all_iff)

lemma sre_lower_consts:
  "sre_lower 1055 = 1087" "sre_lower 1043 = 1075" "sre_lower 1057 = 1089"
  by (simp_all add: sre_lower_def)

lemma lits_head: "lang True (lits (p # ps)) w \<Longrightarrow> w \<noteq> [] \<and> sre_lower (hd w) = sre_lower p"
  by auto

lemma grade_suffix_last: "lang True grade_suffix b \<Longrightarrow> b \<noteq> [] \<and> \<not> is_space (last b)"
proof -
  assume "lang True grade_suffix b"
  then have "lang True (cat ([Atom (Lit 45), spaces0, Atom (Lit 65)]
                 @ [Rep Digit 3 (Some 3) True, Rep (Lit 1057) 0 (Some 1) True])) b"
    by (simp add: grade_suffix_def)
  then obtain p q where pq: "b = p @ q"
    and q: "lang True (cat [Rep Digit 3 (Some 3) True, Rep (Lit 1057) 0 (Some 1) True]) q"
    unfolding lang_cat_append by blast
  from q obtain ds es where q': "q = ds @ es" and ds: "length ds = 3" "list_all is_digit ds"
    and es: "length es \<le> 1" "list_all (\<lambda>c. sre_lower c = sre_lower 1057) es"
    by (auto simp: list_all_iff)
  from pq q' have b: "b = p @ ds @ es" by simp
  show ?thesis
  proof (cases es)
    case Nil
    from ds have ne: "ds \<noteq> []" by auto
    with ds have "ds \<noteq> []" "is_digit (last ds)" by (simp_all add: list_all_iff)
    with b Nil show ?thesis by (auto dest: digit_not_space)
  next
    case (Cons e es')
    with es have "es = [e]" "sre_lower e = 1089" by (auto simp: sre_lower_consts)
    with b show ?thesis using lower_not_space[of e 1089] not_space_consts by auto
  qed
qed

lemma gost_prefix_head: "lang True gost_prefix g \<Longrightarrow> g \<noteq> [] \<and> sre_lower (hd g) = 1075"
proof -
  assume "lang True gost_prefix g"
  then obtain u v where "g = u @ v" "lang True (lits [1043, 1054, 1057, 1058]) u"
    by (auto simp: gost_prefix_def simp del: lits.simps)
  with lits_head[of 1043 _ u] show ?thesis by (auto simp: sre_lower_consts)
qed

lemma name_head: 
  assumes "lang True (cat [Opt gost_prefix, lits [1055, 1088, 1091, 1090, 1086, 1082], spaces1,
                 Rep AnyChar 0 None False]) a"
  shows "a \<noteq> [] \<and> \<not> is_space (hd a)"
proof -
  from assms obtain g r v where a: "a = g @ r @ v" and g: "g = [] \<or> lang True gost_prefix g"
    and r: "lang True (lits [1055, 1088, 1091, 1090, 1086, 1082]) r"
    by (auto simp del: lits.simps)
  from lits_head[OF r] have r': "r \<noteq> []" "sre_lower (hd r) = 1087"
    by (simp_all add: sre_lower_consts)
  show ?thesis
  proof (cases "g = []")
    case True
    with a r' show ?thesis using lower_not_space[of "hd r" 1087] not_space_consts by auto
  next
    case False
    with g have "lang True gost_prefix g" by simp
    from gost_prefix_head[OF this] False a show ?thesis
      using lower_not_space[of "hd g" 1075] not_space_consts by auto
  qed
qed

lemma fullname_shape:
  assumes "lang True fullname_rx name"
  shows "strip name = name \<and> (\<exists>a t b. name = a @ t @ b \<and> lang True SIZE_RE t)"
proof -
  from assms[unfolded fullname_rx_def lang_cat_append size_token_SIZE_RE]
  obtain a t b where n: "name = a @ t @ b"
    and a: "lang True (cat [Opt gost_prefix, lits [1055, 1088, 1091, 1090, 1086, 1082], spaces1,
                 Rep AnyChar 0 None False]) a"
    and t: "lang True SIZE_RE t" and b: "lang True (cat [Opt grade_suffix]) b"
    by blast
  from name_head[OF a] have ha: "a \<noteq> []" "\<not> is_space (hd a)" by simp_all
  from SIZE_RE_last[OF t] have lt: "t \<noteq> []" "\<not> is_space (last t)" by (auto dest: digit_not_space)
  from b have "b = [] \<or> lang True grade_suffix b" by simp
  then have "b = [] \<or> (b \<noteq> [] \<and> \<not> is_space (last b))" using grade_suffix_last by blast
  with lt n have "\<not> is_space (last name)" by auto
  moreover from ha n have "name \<noteq> []" "\<not> is_space (hd name)" by auto
  ultimately have "strip name = name" by (intro strip_id)
  with n t show ?thesis by blast
qed

lemma LINE_RE_SIZE_RE:
  assumes "search True LINE_RE line = Some m"
  shows "\<exists>name. group m 1 = Some name \<and> search True SIZE_RE (strip name) \<noteq> None"
proof -
  from LINE_RE_match[OF assms] obtain name where g: "group m 1 = Some name"
    and n: "lang True fullname_rx name" by blast
  from fullname_shape[OF n] obtain a t b where s: "strip name = name"
    and "name = a @ t @ b" "lang True SIZE_RE t" by blast
  with search_complete[of True SIZE_RE t a b] have "search True SIZE_RE (strip name) \<noteq> None"
    by simp
  with g show ?thesis by blast
qed

lemma blank_iff: "(line = [] \<or> strip line = []) \<longleftrightarrow> list_all is_space line"
  by (auto simp: strip_Nil_iff)

lemma EMBEDDED_HEADER_RE_match:
  assumes "search True EMBEDDED_HEADER_RE line = Some m"
  shows "\<not> list_all is_space line"
proof -
  from search_Some_captures[OF assms] obtain u w v where
    l: "line = u @ w @ v" and c: "captures True EMBEDDED_HEADER_RE w [] m" by blast
  from captures_prefix[OF c[unfolded EMBEDDED_HEADER_RE_def] nogroup_words(3)] obtain p r where
    w: "w = p @ r" and r: "captures True (Group 1 embedded_code) r [] m" by blast
  from captures_one_group[OF r nogroup_words(4)] have "lang True embedded_code r" by simp
  then have "list_ex is_digit r" by (auto simp: embedded_code_def dest: number_has_digit)
  with w have "list_ex is_digit w" by simp
  with l show ?thesis using has_digit_not_blank by blast
qed

lemma classify_blank: "list_all is_space line \<Longrightarrow> classify cur line = Inr Skip"
  using blank_iff[of line] by (simp add: classify_def)

lemma classify_spec_elements:
  assumes "search True SPEC_ELEMENTS_RE line = Some m"
  shows "classify cur line = Inr (Header (group m 1))"
  using assms SPEC_ELEMENTS_RE_match[OF assms] blank_iff[of line]
  by (simp add: classify_def)

lemma classify_spec_header:
  assumes "search True SPEC_ELEMENTS_RE line = None" "search True SPEC_HEADER_RE line = Some m"
  shows "classify cur line = Inr (Header (group m 2))"
  using assms SPEC_HEADER_RE_match[OF assms(2)] blank_iff[of line]
  by (simp add: classify_def)

lemma classify_no_element:
  assumes "search True SPEC_ELEMENTS_RE line = None" "search True SPEC_HEADER_RE line = None"
    and "cur = None \<or> cur = Some []"
  shows "classify cur line = Inr Skip"
  using assms by (auto simp: classify_def)

lemma classify_embedded_line:
  assumes "search True SPEC_ELEMENTS_RE line = None" "search True SPEC_HEADER_RE line = None"
    and "cur = Some element" "element \<noteq> []"
    and "search True EMBEDDED_LINE_RE line = Some m"
  shows "\<exists>q. group m 2 = Some q \<and> is_number q
           \<and> classify cur line = Inr (EmbeddedQty (int (digits_value q)))"
proof -
  from EMBEDDED_LINE_RE_match[OF assms(5)] obtain q where q: "group m 2 = Some q" "is_number q"
    and nb: "\<not> list_all is_space line" by blast
  with assms blank_iff[of line] have "classify cur line = Inr (EmbeddedQty (int (digits_value q)))"
    by (simp add: classify_def int_of_group_number)
  with q show ?thesis by blast
qed

lemma classify_embedded_header:
  assumes "search True SPEC_ELEMENTS_RE line = None" "search True SPEC_HEADER_RE line = None"
    and "cur = Some element" "element \<noteq> []"
    and "search True EMBEDDED_LINE_RE line = None"
    and "search True EMBEDDED_HEADER_RE line \<noteq> None"
  shows "classify cur line = Inr EmbeddedHeader"
proof -
  from assms(6) obtain m where "search True EMBEDDED_HEADER_RE line = Some m" by auto
  from EMBEDDED_HEADER_RE_match[OF this] have "\<not> list_all is_space line" .
  with assms blank_iff[of line] show ?thesis by (simp add: classify_def)
qed

lemma classify_unmatched:
  assumes "search True SPEC_ELEMENTS_RE line = None" "search True SPEC_HEADER_RE line = None"
    and "search True EMBEDDED_LINE_RE line = None"
    and "search True EMBEDDED_HEADER_RE line = None"
    and "search True LINE_RE line = None"
  shows "classify cur line = Inr Skip"
  using assms by (auto simp: classify_def split: option.splits)

lemma classify_rod:
  assumes "search True SPEC_ELEMENTS_RE line = None" "search True SPEC_HEADER_RE line = None"
    and "cur = Some element" "element \<noteq> []"
    and "search True EMBEDDED_LINE_RE line = None"
    and "search True EMBEDDED_HEADER_RE line = None"
    and "search True LINE_RE line = Some m"
  shows "\<exists>name q sm d l. group m 1 = Some name \<and> group m 2 = Some q \<and> is_number q
           \<and> search True SIZE_RE (strip name) = Some sm
           \<and> group sm 1 = Some d \<and> is_number d \<and> group sm 2 = Some l \<and> is_number l
           \<and> classify cur line =
               Inr (Rod (element, strip name, int (digits_value d), int (digits_value l))
                      (int (digits_value q)))"
proof -
  from LINE_RE_match[OF assms(7)] obtain name q where n: "group m 1 = Some name"
    and q: "group m 2 = Some q" "is_number q" and nb: "\<not> list_all is_space line" by blast
  from LINE_RE_SIZE_RE[OF assms(7)] n obtain sm where sm: "search True SIZE_RE (strip name) = Some sm"
    by auto
  from SIZE_RE_match[OF sm] obtain d l where d: "group sm 1 = Some d" "is_number d"
    and l: "group sm 2 = Some l" "is_number l" by blast
  from assms n q nb sm d l blank_iff[of line]
  have "classify cur line =
          Inr (Rod (element, strip name, int (digits_value d), int (digits_value l))
                 (int (digits_value q)))"
    by (simp add: classify_def int_of_group_number Let_def)
  with n q sm d l show ?thesis by blast
qed

lemma classify_total: "\<exists>a. classify cur line = Inr a"
proof (cases "search True SPEC_ELEMENTS_RE line")
  case (Some m) then show ?thesis using classify_spec_elements by blast
next
  case se: None
  show ?thesis
  proof (cases "search True SPEC_HEADER_RE line")
    case (Some m) with se show ?thesis using classify_spec_header by blast
  next
    case sh: None
    show ?thesis
    proof (cases "cur = None \<or> cur = Some []")
      case True with se sh show ?thesis using classify_no_element by blast
    next
      case False
      then obtain element where cur: "cur = Some element" "element \<noteq> []" by auto
      show ?thesis
      proof (cases "search True EMBEDDED_LINE_RE line")
        case (Some m)
        from classify_embedded_line[OF se sh cur Some] show ?thesis by blast
      next
        case el: None
        show ?thesis
        proof (cases "search True EMBEDDED_HEADER_RE line")
          case (Some m)
          then have "search True EMBEDDED_HEADER_RE line \<noteq> None" by simp
          from classify_embedded_header[OF se sh cur el this] show ?thesis by blast
        next
          case eh: None
          show ?thesis
          proof (cases "search True LINE_RE line")
            case None
            from classify_unmatched[OF se sh el eh None] show ?thesis by blast
          next
            case (Some m)
            from classify_rod[OF se sh cur el eh Some] show ?thesis by blast
          qed
        qed
      qed
    qed
  qed
qed

subsection \<open>The scan\<close>

lemma current_element_apply:
  "current_element (apply_action st a) = (case a of Header code \<Rightarrow> code | _ \<Rightarrow> current_element st)"
  by (cases a) (simp_all add: apply_action_def)

lemma process_lines_actions:
  "process_lines st ls = Inr (foldl apply_action st (actions (current_element st) ls))"
proof (induction ls arbitrary: st)
  case Nil then show ?case by simp
next
  case (Cons line ls)
  from classify_total obtain a where a: "classify (current_element st) line = Inr a" by blast
  then have "process_lines st (line # ls) = process_lines (apply_action st a) ls"
    by (simp add: process_line_def)
  also have "\<dots> = Inr (foldl apply_action (apply_action st a)
                      (actions (current_element (apply_action st a)) ls))"
    by (rule Cons.IH)
  finally show ?case using a by (simp add: current_element_apply)
qed

lemma process_lines_append:
  "process_lines st (xs @ ys) =
     (case process_lines st xs of Inl e \<Rightarrow> Inl e | Inr st' \<Rightarrow> process_lines st' ys)"
  by (induction xs arbitrary: st) (auto split: sum.splits)

lemma process_page_lines: "process_page st p = process_lines st (page_lines p)"
  by (cases p) (auto simp: process_page_def page_lines_def splitlines_def)

lemma process_pages_lines:
  "0 < n \<Longrightarrow> process_pages st (enumerate n ps) = process_lines st (concat (map page_lines ps))"
proof (induction ps arbitrary: st n)
  case Nil then show ?case by simp
next
  case (Cons p ps)
  then show ?case
    by (simp add: process_page_lines process_lines_append split: sum.splits)
qed

lemma process_pages_doc_lines:
  "process_pages st (enumerate 0 pages) = process_lines st (doc_lines pages)"
  by (cases pages) (simp_all add: doc_lines_def process_pages_lines)

lemma digitize_actions:
  "digitize pages oc =
     Inr (map (project oc) (rows (foldl apply_action initial_scan (actions None (doc_lines pages)))))"
  by (simp add: digitize_def process_pages_doc_lines process_lines_actions initial_scan_def)

subsection \<open>The table\<close>

lemma keys_touch: "map fst (touch k t) = (if k \<in> set (map fst t) then map fst t else map fst t @ [k])"
  by (simp add: touch_def)

lemma keys_modify: "map fst (modify k f t) = (if k \<in> set (map fst t) then map fst t else map fst t @ [k])"
proof -
  have "map fst (modify k f t) = map fst (touch k t)"
    by (simp add: modify_def case_prod_unfold comp_def)
  then show ?thesis by (simp add: keys_touch)
qed

lemma keys_apply:
  "map fst (rows (apply_action st a)) =
     (case a of
        Rod k q \<Rightarrow> if k \<in> set (map fst (rows st)) then map fst (rows st) else map fst (rows st) @ [k]
      | _ \<Rightarrow> map fst (rows st))"
  by (cases a) (auto simp: apply_action_def keys_modify)

lemma first_occurrences_snoc:
  "first_occurrences (xs @ [k]) =
     (if k \<in> set xs then first_occurrences xs else first_occurrences xs @ [k])"
  by (simp add: first_occurrences_def)

lemma set_first_occurrences [simp]: "set (first_occurrences xs) = set xs"
  by (simp add: first_occurrences_def)

lemma first_occurrences_distinct: "distinct xs \<Longrightarrow> first_occurrences xs = xs"
proof -
  assume "distinct xs"
  then have "distinct (rev xs)" by simp
  then have "remdups (rev xs) = rev xs" by (rule distinct_remdups_id)
  then show ?thesis unfolding first_occurrences_def by (simp only: rev_rev_ident)
qed

lemma distinct_first_occurrences: "distinct (first_occurrences xs)"
  by (simp add: first_occurrences_def)

lemma rod_keys_append: "rod_keys (xs @ ys) = rod_keys xs @ rod_keys ys"
  by (induction xs rule: rod_keys.induct) auto

lemma keys_foldl:
  "distinct (map fst (rows st)) \<Longrightarrow>
   map fst (rows (foldl apply_action st as)) = first_occurrences (map fst (rows st) @ rod_keys as)"
proof (induction as rule: rev_induct)
  case Nil then show ?case by (simp add: first_occurrences_distinct)
next
  case (snoc a as)
  then have IH: "map fst (rows (foldl apply_action st as))
                 = first_occurrences (map fst (rows st) @ rod_keys as)" by simp
  show ?case
  proof (cases a)
    case (Rod k q)
    have "first_occurrences (map fst (rows st) @ rod_keys (as @ [a]))
        = first_occurrences ((map fst (rows st) @ rod_keys as) @ [k])"
      by (simp add: rod_keys_append Rod)
    then show ?thesis
      unfolding first_occurrences_snoc using IH Rod by (simp add: keys_apply)
  qed (simp_all add: keys_apply IH rod_keys_append)
qed

subsection \<open>Evaluation of the examples\<close>

lemmas rx_defs = SPEC_ELEMENTS_RE_def SPEC_HEADER_RE_def EMBEDDED_LINE_RE_def EMBEDDED_HEADER_RE_def
  LINE_RE_def SIZE_RE_def OBJECT_RE_def spec_words_def category_word_def embedded_words_def
  embedded_code_def fullname_rx_def gost_prefix_def grade_suffix_def size_token_def element_code_def
  digits1_def spaces0_def spaces1_def

lemmas char_defs = is_digit_def decimal_zeros_def is_space_def white_space_def sre_lower_def
  is_linebreak_def

lemmas example_defs = km1_def bm2_def line_kolonna_km1_def line_balka_bm2_def line_zd_def
  line_zd_4_def line_zd_7_def name_12x500_def line_rod_12x500_5_def name_10x300_def
  line_rod_10x300_2_def line_abc_def summary_page_def example_pages_def

lemmas classify_eval = classify_def strip_def group_def int_of_group_def py_int_def
  digits_value_def digit_value_def rx_defs char_defs example_defs

lemma classify_kolonna_km1: "classify cur line_kolonna_km1 = Inr (Header (Some km1))"
  by (simp add: classify_eval)

lemma classify_balka_bm2: "classify cur line_balka_bm2 = Inr (Header (Some bm2))"
  by (simp add: classify_eval)

lemma classify_zd: "classify (Some km1) line_zd = Inr EmbeddedHeader"
  by (simp add: classify_eval)

lemma classify_zd_4: "classify (Some km1) line_zd_4 = Inr (EmbeddedQty 4)"
  by (simp add: classify_eval)

lemma classify_zd_7: "classify (Some km1) line_zd_7 = Inr (EmbeddedQty 7)"
  by (simp add: classify_eval)

lemma classify_rod_12x500_km1:
  "classify (Some km1) line_rod_12x500_5 = Inr (Rod (km1, name_12x500, 12, 500) 5)"
  by (simp add: classify_eval)

lemma classify_rod_10x300_km1:
  "classify (Some km1) line_rod_10x300_2 = Inr (Rod (km1, name_10x300, 10, 300) 2)"
  by (simp add: classify_eval)

lemma classify_rod_12x500_bm2:
  "classify (Some bm2) line_rod_12x500_5 = Inr (Rod (bm2, name_12x500, 12, 500) 5)"
  by (simp add: classify_eval)

lemma classify_rod_10x300_bm2:
  "classify (Some bm2) line_rod_10x300_2 = Inr (Rod (bm2, name_10x300, 10, 300) 2)"
  by (simp add: classify_eval)

lemmas classify_examples = classify_kolonna_km1 classify_balka_bm2 classify_zd classify_zd_4
  classify_zd_7 classify_rod_12x500_km1 classify_rod_10x300_km1 classify_rod_12x500_bm2
  classify_rod_10x300_bm2

lemma doc_lines_example:
  "doc_lines example_pages =
     [line_kolonna_km1, line_rod_12x500_5, line_zd, line_zd_4, line_rod_10x300_2,
      line_rod_10x300_2, line_balka_bm2, line_rod_10x300_2, line_rod_12x500_5]"
  by (simp add: doc_lines_def page_lines_def splitlines_def example_defs char_defs)

lemma actions_example:
  "actions None (doc_lines example_pages) =
     [Header (Some km1), Rod (km1, name_12x500, 12, 500) 5, EmbeddedHeader, EmbeddedQty 4,
      Rod (km1, name_10x300, 10, 300) 2, Rod (km1, name_10x300, 10, 300) 2,
      Header (Some bm2), Rod (bm2, name_10x300, 10, 300) 2, Rod (bm2, name_12x500, 12, 500) 5]"
  by (simp add: doc_lines_example classify_examples)

lemma keys_differ:
  "km1 \<noteq> bm2" "bm2 \<noteq> km1" "name_12x500 \<noteq> name_10x300" "name_10x300 \<noteq> name_12x500"
  by (simp_all add: example_defs)

lemma rows_example:
  "rows (foldl apply_action initial_scan (actions None (doc_lines example_pages))) =
     [((km1, name_12x500, 12, 500), \<lparr>rods_direct = 5, rods_in_zd = 0, zd_count = 0\<rparr>),
      ((km1, name_10x300, 10, 300), \<lparr>rods_direct = 0, rods_in_zd = 4, zd_count = 4\<rparr>),
      ((bm2, name_10x300, 10, 300), \<lparr>rods_direct = 2, rods_in_zd = 0, zd_count = 0\<rparr>),
      ((bm2, name_12x500, 12, 500), \<lparr>rods_direct = 5, rods_in_zd = 0, zd_count = 0\<rparr>)]"
  by (simp add: actions_example apply_action_def initial_scan_def modify_def touch_def
      default_counters_def keys_differ)

lemma counts_example:
  "extract_object_counts example_pages = Inr [bm2 \<mapsto> 7, km1 \<mapsto> 5]"
  by (simp add: extract_object_counts_def example_pages_def summary_page_def py_int_def
      strip_def group_def digits_value_def digit_value_def rx_defs char_defs km1_def bm2_def)

lemma digitize_example:
  "digitize example_pages [bm2 \<mapsto> 7, km1 \<mapsto> 5] =
     Inr [\<lparr>r_element = km1, r_name = name_12x500, r_diameter = 12, r_length = 500,
            r_rods_direct = 5, r_rods_in_zd = 0, r_objects = 5, r_zd_count = 0, r_total = 25\<rparr>,
          \<lparr>r_element = km1, r_name = name_10x300, r_diameter = 10, r_length = 300,
            r_rods_direct = 0, r_rods_in_zd = 4, r_objects = 5, r_zd_count = 4, r_total = 80\<rparr>,
          \<lparr>r_element = bm2, r_name = name_10x300, r_diameter = 10, r_length = 300,
            r_rods_direct = 2, r_rods_in_zd = 0, r_objects = 7, r_zd_count = 0, r_total = 14\<rparr>,
          \<lparr>r_element = bm2, r_name = name_12x500, r_diameter = 12, r_length = 500,
            r_rods_direct = 5, r_rods_in_zd = 0, r_objects = 7, r_zd_count = 0, r_total = 35\<rparr>]"
  by (simp add: digitize_actions rows_example project_def keys_differ)

subsection \<open>Lines that change nothing\<close>

lemma apply_Skip [simp]: "apply_action st Skip = st"
  by (simp add: apply_action_def)




lemma no_header_lines_skip:
  "\<forall>line \<in> set ls. search True SPEC_ELEMENTS_RE line = None \<and> search True SPEC_HEADER_RE line = None
   \<Longrightarrow> actions None ls = replicate (length ls) Skip"
  by (induction ls) (simp_all add: classify_no_element)

lemma rod_keys_Skips [simp]: "rod_keys (replicate n Skip) = []"
  by (induction n) auto

lemma foldl_Skips [simp]: "foldl apply_action st (replicate n Skip) = st"
  by (induction n) auto


lemma search_eval_none:
  "search True SPEC_ELEMENTS_RE line_zd = None" "search True SPEC_HEADER_RE line_zd = None"
  "search True SPEC_ELEMENTS_RE line_zd_4 = None" "search True SPEC_HEADER_RE line_zd_4 = None"
  "search True SPEC_ELEMENTS_RE line_rod_12x500_5 = None"
  "search True SPEC_HEADER_RE line_rod_12x500_5 = None"
  "search True SPEC_ELEMENTS_RE line_rod_10x300_2 = None"
  "search True SPEC_HEADER_RE line_rod_10x300_2 = None"
  "search True SPEC_ELEMENTS_RE line_abc = None" "search True SPEC_HEADER_RE line_abc = None"
  "search True EMBEDDED_LINE_RE line_abc = None" "search True EMBEDDED_HEADER_RE line_abc = None"
  "search True LINE_RE line_abc = None"
  "search True EMBEDDED_LINE_RE line_rod_12x500_5 = None"
  "search True EMBEDDED_HEADER_RE line_rod_12x500_5 = None"
  "search True EMBEDDED_LINE_RE line_rod_10x300_2 = None"
  "search True EMBEDDED_HEADER_RE line_rod_10x300_2 = None"
  "search True LINE_RE line_kolonna_km1 = None"
  "search True LINE_RE line_zd = None"
  "search True LINE_RE line_zd_4 = None"
  by (simp_all add: rx_defs char_defs example_defs)

subsection \<open>The object counts\<close>



lemma extract_object_counts_Nil: "extract_object_counts [] = Inl IndexError"
  by (simp add: extract_object_counts_def)


subsection \<open>Entries of the table\<close>

lemma map_of_map_key:
  "map_of (map (\<lambda>(k', c). if k' = k then (k', f c) else (k', c)) t) k = map_option f (map_of t k)"
  by (induction t) auto

lemma map_of_map_other:
  "k' \<noteq> k \<Longrightarrow> map_of (map (\<lambda>(k', c). if k' = k then (k', f c) else (k', c)) t) k' = map_of t k'"
  by (induction t) auto

lemma map_of_touch:
  "map_of (touch k t) k' =
     (if k' = k \<and> map_of t k = None then Some default_counters else map_of t k')"
proof (cases "k \<in> fst ` set t")
  case True
  then have "map_of t k \<noteq> None" by (simp add: map_of_eq_None_iff)
  with True show ?thesis by (simp add: touch_def)
next
  case False
  then have "map_of t k = None" by (simp add: map_of_eq_None_iff)
  with False show ?thesis
    by (auto simp: touch_def map_add_def split: option.splits)
qed

lemma entry_modify: "entry (modify k f t) k = f (entry t k)"
  by (simp add: entry_def modify_def map_of_map_key map_of_touch split: option.splits)

lemma entry_modify_other: "k' \<noteq> k \<Longrightarrow> entry (modify k f t) k' = entry t k'"
  by (simp add: entry_def modify_def map_of_map_other map_of_touch)

lemma search_eval_some:
  "search True SPEC_HEADER_RE line_balka_bm2 = Some [(2, bm2), (1, [1041, 1072, 1083, 1082, 1072])]"
  "search True EMBEDDED_LINE_RE line_zd_7 = Some [(2, [55]), (1, [1047, 1044, 45, 49])]"
  "search True LINE_RE line_rod_12x500_5 = Some [(2, [53]), (1, name_12x500)]"
  "search True SPEC_ELEMENTS_RE line_balka_bm2 = None"
  "search True SPEC_ELEMENTS_RE line_zd_7 = None"
  "search True SPEC_HEADER_RE line_zd_7 = None"
  "search True EMBEDDED_HEADER_RE line_zd_7 \<noteq> None"
  by (simp_all add: rx_defs char_defs example_defs)

section \<open>The claims\<close>

text \<open>
  C1. Every row of the result carries the object count of its element, taken from the
  object counts and 1 when the element has no entry there, and its total is the direct
  rods times that count plus the rods per embedded item times the number of embedded
  items times that count.
\<close>

theorem total_quantity_formula:
  assumes "digitize pages object_counts = Inr result_rows" and "r \<in> set result_rows"
  shows "r_objects r = (case object_counts (r_element r) of None \<Rightarrow> 1 | Some v \<Rightarrow> v)
       \<and> r_total r = r_rods_direct r * r_objects r + r_rods_in_zd r * r_zd_count r * r_objects r"
proof -
  from assms(1) have "result_rows = map (project object_counts)
      (rows (foldl apply_action initial_scan (actions None (doc_lines pages))))"
    by (simp add: digitize_actions)
  with assms(2) obtain kc where "r = project object_counts kc" by auto
  then show ?thesis
    by (cases kc) (auto simp: project_def Let_def)
qed

theorem total_quantity_formula_witness:
  "(\<exists>rs r. digitize example_pages [bm2 \<mapsto> 7, km1 \<mapsto> 5] = Inr rs \<and> r \<in> set rs
       \<and> r_element r = km1 \<and> r_rods_in_zd r = 4 \<and> r_zd_count r = 4 \<and> r_objects r = 5
       \<and> r_total r = 80)
   \<and> (\<exists>rs r. digitize example_pages Map.empty = Inr rs \<and> r \<in> set rs
       \<and> r_element r = km1 \<and> r_rods_direct r = 5 \<and> r_objects r = 1 \<and> r_total r = 5)"
proof -
  let ?r = "\<lparr>r_element = km1, r_name = name_10x300, r_diameter = 10, r_length = 300,
            r_rods_direct = 0, r_rods_in_zd = 4, r_objects = 5, r_zd_count = 4, r_total = 80\<rparr>"
  have "?r \<in> set (projr (digitize example_pages [bm2 \<mapsto> 7, km1 \<mapsto> 5]))"
    by (simp add: digitize_example)
  with total_quantity_formula[OF digitize_example, of ?r] digitize_example
  have a: "\<exists>rs r. digitize example_pages [bm2 \<mapsto> 7, km1 \<mapsto> 5] = Inr rs \<and> r \<in> set rs
       \<and> r_element r = km1 \<and> r_rods_in_zd r = 4 \<and> r_zd_count r = 4 \<and> r_objects r = 5
       \<and> r_total r = 80"
    by (intro exI[of _ "projr (digitize example_pages [bm2 \<mapsto> 7, km1 \<mapsto> 5])"] exI[of _ ?r]) simp
  let ?rs = "map (project Map.empty)
      (rows (foldl apply_action initial_scan (actions None (doc_lines example_pages))))"
  let ?q = "project Map.empty ((km1, name_12x500, 12, 500),
              \<lparr>rods_direct = 5, rods_in_zd = 0, zd_count = 0\<rparr>)"
  have d: "digitize example_pages Map.empty = Inr ?rs" by (rule digitize_actions)
  have m: "?q \<in> set ?rs" by (simp add: rows_example)
  from total_quantity_formula[OF d m]
  have "r_element ?q = km1 \<and> r_rods_direct ?q = 5 \<and> r_objects ?q = 1 \<and> r_total ?q = 5"
    by (simp add: project_def)
  with d m have b: "\<exists>rs r. digitize example_pages Map.empty = Inr rs \<and> r \<in> set rs
       \<and> r_element r = km1 \<and> r_rods_direct r = 5 \<and> r_objects r = 1 \<and> r_total r = 5"
    by blast
  from a b show ?thesis by blast
qed

text \<open>
  C2. The rows of the result come in the order in which their keys (element, name,
  diameter, length) first occur among the rod events of the scan of the pages and
  lines, each key once; nothing else orders them.
\<close>

theorem rows_in_first_occurrence_order:
  assumes "digitize pages object_counts = Inr result_rows"
  shows "map row_key result_rows = first_occurrences (rod_keys (actions None (doc_lines pages)))
       \<and> distinct (map row_key result_rows)"
proof -
  let ?st = "foldl apply_action initial_scan (actions None (doc_lines pages))"
  from assms have r: "result_rows = map (project object_counts) (rows ?st)"
    by (simp add: digitize_actions)
  have "row_key (project object_counts kc) = fst kc" for kc
    by (cases kc) (auto simp: row_key_def project_def Let_def)
  with r have "map row_key result_rows = map fst (rows ?st)" by simp
  also have "\<dots> = first_occurrences ([] @ rod_keys (actions None (doc_lines pages)))"
    using keys_foldl[of initial_scan] by (simp add: initial_scan_def)
  finally show ?thesis by (simp add: distinct_first_occurrences)
qed

theorem rows_in_first_occurrence_order_witness:
  "\<exists>rs. digitize example_pages Map.empty = Inr rs
     \<and> rod_keys (actions None (doc_lines example_pages)) =
         [(km1, name_12x500, 12, 500), (km1, name_10x300, 10, 300), (km1, name_10x300, 10, 300),
          (bm2, name_10x300, 10, 300), (bm2, name_12x500, 12, 500)]
     \<and> map row_key rs =
         [(km1, name_12x500, 12, 500), (km1, name_10x300, 10, 300),
          (bm2, name_10x300, 10, 300), (bm2, name_12x500, 12, 500)]"
proof -
  let ?rs = "map (project Map.empty)
      (rows (foldl apply_action initial_scan (actions None (doc_lines example_pages))))"
  have d: "digitize example_pages Map.empty = Inr ?rs" by (rule digitize_actions)
  have k: "rod_keys (actions None (doc_lines example_pages)) =
         [(km1, name_12x500, 12, 500), (km1, name_10x300, 10, 300), (km1, name_10x300, 10, 300),
          (bm2, name_10x300, 10, 300), (bm2, name_12x500, 12, 500)]"
    by (simp add: actions_example)
  from rows_in_first_occurrence_order[OF d]
  have "map row_key ?rs = first_occurrences (rod_keys (actions None (doc_lines example_pages)))"
    by simp
  also have "\<dots> = [(km1, name_12x500, 12, 500), (km1, name_10x300, 10, 300),
          (bm2, name_10x300, 10, 300), (bm2, name_12x500, 12, 500)]"
    unfolding k by (simp add: first_occurrences_def keys_differ)
  finally have "digitize example_pages Map.empty = Inr ?rs
     \<and> rod_keys (actions None (doc_lines example_pages)) =
         [(km1, name_12x500, 12, 500), (km1, name_10x300, 10, 300), (km1, name_10x300, 10, 300),
          (bm2, name_10x300, 10, 300), (bm2, name_12x500, 12, 500)]
     \<and> map row_key ?rs =
         [(km1, name_12x500, 12, 500), (km1, name_10x300, 10, 300),
          (bm2, name_10x300, 10, 300), (bm2, name_12x500, 12, 500)]"
    using d k by simp
  then show ?thesis by (rule exI)
qed

text \<open>
  C9. While no current element is set, a line that matches neither the section marker
  nor the element header changes nothing, whatever else it matches: the embedded
  quantity, the embedded flag and the table stay as they are, and there is no rod
  event. So a scan that starts without element passes over all such lines.
\<close>

theorem lines_before_first_header_ignored:
  assumes "current_element st = None"
    and "\<forall>line \<in> set ls. search True SPEC_ELEMENTS_RE line = None
                         \<and> search True SPEC_HEADER_RE line = None"
  shows "process_lines st ls = Inr st \<and> actions None ls = replicate (length ls) Skip"
  using assms by (simp add: process_lines_actions no_header_lines_skip)

theorem lines_before_first_header_ignored_witness:
  "current_element initial_scan = None
   \<and> process_lines initial_scan [line_zd, line_zd_4, line_rod_12x500_5] = Inr initial_scan
   \<and> actions None [line_zd, line_zd_4, line_rod_12x500_5] = [Skip, Skip, Skip]
   \<and> actions (Some km1) [line_zd, line_zd_4, line_rod_12x500_5]
       = [EmbeddedHeader, EmbeddedQty 4, Rod (km1, name_12x500, 12, 500) 5]"
proof -
  have c: "current_element initial_scan = None" by (simp add: initial_scan_def)
  have h: "\<forall>line \<in> set [line_zd, line_zd_4, line_rod_12x500_5].
             search True SPEC_ELEMENTS_RE line = None \<and> search True SPEC_HEADER_RE line = None"
    by (simp add: search_eval_none)
  from lines_before_first_header_ignored[OF c h] c show ?thesis
    by (simp add: classify_examples)
qed








text \<open>
  C4. A line that matches the section marker, or else the element header, sets the
  current element to the code it captures (group 1 of the marker, group 2 of the
  header), clears the embedded flag and sets the embedded quantity to 0, whatever the
  state was. So a rod line that follows is counted as direct, also when the scan was
  inside an embedded item of the element before.
\<close>

theorem header_resets_embedded_state:
  assumes "search True SPEC_ELEMENTS_RE line = Some m \<and> code = group m 1
         \<or> search True SPEC_ELEMENTS_RE line = None
           \<and> search True SPEC_HEADER_RE line = Some m \<and> code = group m 2"
  shows "(\<exists>c. code = Some c \<and> lang True element_code c)
       \<and> process_line st line =
           Inr (st\<lparr>current_element := code, in_embedded := False, embedded_qty := 0\<rparr>)
       \<and> (classify code rod_line = Inr (Rod k qty) \<longrightarrow>
            (\<exists>st'. process_lines st [line, rod_line] = Inr st' \<and> \<not> in_embedded st'
               \<and> entry (rows st') k =
                   (entry (rows st) k)\<lparr>rods_direct := rods_direct (entry (rows st) k) + qty\<rparr>))"
proof -
  from assms have c: "classify (current_element st) line = Inr (Header code)"
    using classify_spec_elements classify_spec_header by blast
  from assms have e: "\<exists>c. code = Some c \<and> lang True element_code c"
    using SPEC_ELEMENTS_RE_match SPEC_HEADER_RE_match by blast
  let ?st1 = "st\<lparr>current_element := code, in_embedded := False, embedded_qty := 0\<rparr>"
  from c have p: "process_line st line = Inr ?st1"
    by (simp add: process_line_def apply_action_def)
  have "\<exists>st'. process_lines st [line, rod_line] = Inr st' \<and> \<not> in_embedded st'
               \<and> entry (rows st') k =
                   (entry (rows st) k)\<lparr>rods_direct := rods_direct (entry (rows st) k) + qty\<rparr>"
    if "classify code rod_line = Inr (Rod k qty)"
    using that p by (simp add: process_line_def apply_action_def entry_modify)
  with e p show ?thesis by blast
qed

theorem header_resets_embedded_state_witness:
  "search True SPEC_ELEMENTS_RE line_balka_bm2 = None
   \<and> search True SPEC_HEADER_RE line_balka_bm2 = Some [(2, bm2), (1, [1041, 1072, 1083, 1082, 1072])]
   \<and> in_embedded embedded_scan \<and> embedded_qty embedded_scan = 4
   \<and> process_line embedded_scan line_balka_bm2 =
       Inr \<lparr>current_element = Some bm2, embedded_qty = 0, in_embedded = False, rows = []\<rparr>
   \<and> classify (Some bm2) line_rod_10x300_2 = Inr (Rod (bm2, name_10x300, 10, 300) 2)
   \<and> (\<exists>st'. process_lines embedded_scan [line_balka_bm2, line_rod_10x300_2] = Inr st'
         \<and> \<not> in_embedded st'
         \<and> entry (rows st') (bm2, name_10x300, 10, 300) =
             \<lparr>rods_direct = 2, rods_in_zd = 0, zd_count = 0\<rparr>)"
proof -
  let ?m = "[(2, bm2), (1, [1041, 1072, 1083, 1082, 1072])]"
  let ?k = "(bm2, name_10x300, 10, 300)"
  have a: "search True SPEC_ELEMENTS_RE line_balka_bm2 = Some ?m \<and> Some bm2 = group ?m 1
         \<or> search True SPEC_ELEMENTS_RE line_balka_bm2 = None
           \<and> search True SPEC_HEADER_RE line_balka_bm2 = Some ?m \<and> Some bm2 = group ?m 2"
    by (simp add: search_eval_some group_def)
  note t = header_resets_embedded_state[OF a, of embedded_scan line_rod_10x300_2 ?k 2]
  from t have p: "process_line embedded_scan line_balka_bm2 =
       Inr \<lparr>current_element = Some bm2, embedded_qty = 0, in_embedded = False, rows = []\<rparr>"
    by (simp add: embedded_scan_def)
  have e: "entry (rows embedded_scan) ?k = \<lparr>rods_direct = 0, rods_in_zd = 0, zd_count = 0\<rparr>"
    by (simp add: entry_def embedded_scan_def default_counters_def)
  from t classify_rod_10x300_bm2
  have "\<exists>st'. process_lines embedded_scan [line_balka_bm2, line_rod_10x300_2] = Inr st'
         \<and> \<not> in_embedded st'
         \<and> entry (rows st') ?k =
             (entry (rows embedded_scan) ?k)
               \<lparr>rods_direct := rods_direct (entry (rows embedded_scan) ?k) + 2\<rparr>"
    by blast
  then have "\<exists>st'. process_lines embedded_scan [line_balka_bm2, line_rod_10x300_2] = Inr st'
         \<and> \<not> in_embedded st'
         \<and> entry (rows st') ?k = \<lparr>rods_direct = 2, rods_in_zd = 0, zd_count = 0\<rparr>"
    unfolding e by simp
  with p search_eval_some classify_rod_10x300_bm2 show ?thesis
    by (simp add: embedded_scan_def)
qed



text \<open>
  C6. A rod event inside an embedded item adds its quantity to the rods per embedded
  item of its key and stores, in place of what was there, the embedded quantity of the
  state as the key's number of embedded items. When the embedded quantity changes and
  a second such event meets the same key, the key keeps the second quantity only, with
  the rods of both events.
\<close>

theorem embedded_count_overwritten:
  assumes "in_embedded st" and "classify (current_element st) line = Inr (Rod k qty)"
  shows "(\<exists>st'. process_line st line = Inr st'
           \<and> entry (rows st') k =
               (entry (rows st) k)\<lparr>rods_in_zd := rods_in_zd (entry (rows st) k) + qty,
                                   zd_count := embedded_qty st\<rparr>)
       \<and> (classify (current_element st) qty_line = Inr (EmbeddedQty v)
            \<and> classify (current_element st) line2 = Inr (Rod k qty2) \<longrightarrow>
          (\<exists>st''. process_lines st [line, qty_line, line2] = Inr st''
             \<and> entry (rows st'') k =
                 (entry (rows st) k)\<lparr>rods_in_zd := rods_in_zd (entry (rows st) k) + qty + qty2,
                                     zd_count := v\<rparr>))"
proof -
  let ?f = "\<lambda>q (c::counters). c\<lparr>rods_in_zd := rods_in_zd c + q\<rparr>"
  let ?g = "\<lambda>z (c::counters). c\<lparr>zd_count := z\<rparr>"
  let ?st1 = "st\<lparr>rows := modify k (?g (embedded_qty st)) (modify k (?f qty) (rows st))\<rparr>"
  from assms have p: "process_line st line = Inr ?st1"
    by (simp add: process_line_def apply_action_def)
  have e1: "entry (rows ?st1) k =
               (entry (rows st) k)\<lparr>rods_in_zd := rods_in_zd (entry (rows st) k) + qty,
                                   zd_count := embedded_qty st\<rparr>"
    by (simp add: entry_modify)
  have two: "\<exists>st''. process_lines st [line, qty_line, line2] = Inr st''
             \<and> entry (rows st'') k =
                 (entry (rows st) k)\<lparr>rods_in_zd := rods_in_zd (entry (rows st) k) + qty + qty2,
                                     zd_count := v\<rparr>"
    if "classify (current_element st) qty_line = Inr (EmbeddedQty v)"
      and "classify (current_element st) line2 = Inr (Rod k qty2)"
    using that p assms(1)
    by (simp add: process_line_def apply_action_def entry_modify)
  from p e1 two show ?thesis by blast
qed

theorem embedded_count_overwritten_witness:
  "in_embedded embedded_scan \<and> embedded_qty embedded_scan = 4
   \<and> classify (current_element embedded_scan) line_rod_10x300_2
       = Inr (Rod (km1, name_10x300, 10, 300) 2)
   \<and> classify (current_element embedded_scan) line_zd_7 = Inr (EmbeddedQty 7)
   \<and> (\<exists>st'. process_line embedded_scan line_rod_10x300_2 = Inr st'
         \<and> entry (rows st') (km1, name_10x300, 10, 300)
             = \<lparr>rods_direct = 0, rods_in_zd = 2, zd_count = 4\<rparr>)
   \<and> (\<exists>st''. process_lines embedded_scan [line_rod_10x300_2, line_zd_7, line_rod_10x300_2] = Inr st''
         \<and> entry (rows st'') (km1, name_10x300, 10, 300)
             = \<lparr>rods_direct = 0, rods_in_zd = 4, zd_count = 7\<rparr>)
   \<and> digitize [None, Some (join_lines [line_kolonna_km1, line_zd, line_zd_4, line_rod_10x300_2,
                                        line_zd_7, line_rod_10x300_2])] Map.empty
       = Inr [\<lparr>r_element = km1, r_name = name_10x300, r_diameter = 10, r_length = 300,
               r_rods_direct = 0, r_rods_in_zd = 4, r_objects = 1, r_zd_count = 7,
               r_total = 28\<rparr>]"
proof -
  let ?doc = "[None, Some (join_lines [line_kolonna_km1, line_zd, line_zd_4, line_rod_10x300_2,
                                        line_zd_7, line_rod_10x300_2])]"
  have l: "doc_lines ?doc = [line_kolonna_km1, line_zd, line_zd_4, line_rod_10x300_2,
                             line_zd_7, line_rod_10x300_2]"
    by (simp add: doc_lines_def page_lines_def splitlines_def example_defs char_defs)
  have d: "digitize ?doc Map.empty
       = Inr [\<lparr>r_element = km1, r_name = name_10x300, r_diameter = 10, r_length = 300,
               r_rods_direct = 0, r_rods_in_zd = 4, r_objects = 1, r_zd_count = 7,
               r_total = 28\<rparr>]"
    unfolding digitize_actions l
    by (simp add: classify_examples apply_action_def initial_scan_def modify_def touch_def
        default_counters_def project_def)
  let ?k = "(km1, name_10x300, 10, 300)"
  have i: "in_embedded embedded_scan" "embedded_qty embedded_scan = 4"
    "current_element embedded_scan = Some km1"
    by (simp_all add: embedded_scan_def)
  have c: "classify (current_element embedded_scan) line_rod_10x300_2 = Inr (Rod ?k 2)"
    "classify (current_element embedded_scan) line_zd_7 = Inr (EmbeddedQty 7)"
    by (simp_all add: i classify_examples)
  have e: "entry (rows embedded_scan) ?k = \<lparr>rods_direct = 0, rods_in_zd = 0, zd_count = 0\<rparr>"
    by (simp add: entry_def embedded_scan_def default_counters_def)
  note t = embedded_count_overwritten[OF i(1) c(1), of line_zd_7 7 line_rod_10x300_2 2]
  from t have "\<exists>st'. process_line embedded_scan line_rod_10x300_2 = Inr st'
         \<and> entry (rows st') ?k = \<lparr>rods_direct = 0, rods_in_zd = 2, zd_count = 4\<rparr>"
    unfolding e i by simp
  moreover from t c have "\<exists>st''. process_lines embedded_scan
             [line_rod_10x300_2, line_zd_7, line_rod_10x300_2] = Inr st''
         \<and> entry (rows st'') ?k = \<lparr>rods_direct = 0, rods_in_zd = 4, zd_count = 7\<rparr>"
    unfolding e i by simp
  ultimately show ?thesis using i c d by simp
qed

end
